theory Spec2Isabelle
  imports Main
begin

section \<open>The debug switch of the AMQP serializer: \<^verbatim>\<open>include/debug.h\<close>\<close>

text \<open>
  The header, without its blank lines and comment lines (the flag is defined on line 5
  of the file, the conditional is lines 9 to 13):
  \<^verbatim>\<open>
  #pragma once
  #define AMQP_DEBUG 1
  #if defined AMQP_DEBUG && AMQP_DEBUG >= 1
      #define DBG(X) std::cout << X
  #else
      #define DBG(X)
  #endif
  \<close>
  It is embedded as a list of directives, run by a small model of the C preprocessor
  (macro table, \<^verbatim>\<open>#define\<close>, \<^verbatim>\<open>#if\<close>, macro invocation), followed by a
  model of the fragment of C++ that the replacement list \<^verbatim>\<open>std::cout << X\<close> needs:
  expression statements built from literals, calls, \<^verbatim>\<open><<\<close> and \<^verbatim>\<open>?:\<close>.
\<close>

subsection \<open>Preprocessing tokens and macros\<close>

datatype token =
    TIdent string
  | TInt nat
  | TStr string
  | TLParen
  | TRParen
  | TComma
  | TShl
  | TQuest
  | TColon
  | TSemi
  | TScope
  | TMinus
  | TOther string

datatype macro =
    ObjectLike "token list"
  | FunctionLike "string list" "token list"

type_synonym macros = "string \<rightharpoonup> macro"

datatype pp_error =
    NotIntegerLiteral
  | Unbalanced
  | WrongArgCount nat nat

subsection \<open>Controlling expressions of \<^verbatim>\<open>#if\<close>\<close>

text \<open>
  The preprocessor evaluates a controlling expression in \<^verbatim>\<open>intmax_t\<close>. An
  identifier that is an object-like macro is replaced by its replacement list; the
  model reads a replacement list that is an integer literal, with an optional minus
  sign, inside the range of a 64-bit \<^verbatim>\<open>intmax_t\<close>, and reports
  \<^const>\<open>NotIntegerLiteral\<close> for any other list. An identifier that is left after
  macro replacement (not a macro, or the name of a function-like macro without an
  argument list) is replaced by \<open>0\<close>.
\<close>

datatype ppexpr =
    PDefined string
  | PNum int
  | PName string
  | PAnd ppexpr ppexpr
  | PGe ppexpr ppexpr

definition intmax_max :: int where
  "intmax_max = 2 ^ 63 - 1"

fun constant_value :: "token list \<Rightarrow> pp_error + int" where
  "constant_value [TInt n] =
     (if int n \<le> intmax_max then Inr (int n) else Inl NotIntegerLiteral)"
| "constant_value [TMinus, TInt n] =
     (if int n \<le> intmax_max then Inr (- int n) else Inl NotIntegerLiteral)"
| "constant_value _ = Inl NotIntegerLiteral"

fun pp_eval :: "macros \<Rightarrow> ppexpr \<Rightarrow> pp_error + int" where
  "pp_eval M (PDefined n) = Inr (case M n of None \<Rightarrow> 0 | Some _ \<Rightarrow> 1)"
| "pp_eval M (PNum k) = Inr k"
| "pp_eval M (PName n) =
     (case M n of
        None \<Rightarrow> Inr 0
      | Some (ObjectLike body) \<Rightarrow> constant_value body
      | Some (FunctionLike ps body) \<Rightarrow> Inr 0)"
| "pp_eval M (PAnd a b) =
     (case pp_eval M a of
        Inl e \<Rightarrow> Inl e
      | Inr x \<Rightarrow>
          (case pp_eval M b of
             Inl e \<Rightarrow> Inl e
           | Inr y \<Rightarrow> Inr (if x \<noteq> 0 \<and> y \<noteq> 0 then 1 else 0)))"
| "pp_eval M (PGe a b) =
     (case pp_eval M a of
        Inl e \<Rightarrow> Inl e
      | Inr x \<Rightarrow>
          (case pp_eval M b of
             Inl e \<Rightarrow> Inl e
           | Inr y \<Rightarrow> Inr (if y \<le> x then 1 else 0)))"

subsection \<open>Directives\<close>

text \<open>
  The state of the preprocessor is the macro table and the list of names that were
  redefined with a different definition. Such a redefinition is ill-formed and is
  diagnosed; compilers go on with the new definition, and so does the model.
\<close>

record pp_state =
  macros :: macros
  redefined :: "string list"

datatype directive =
    Pragma string
  | Define string macro
  | IfElse ppexpr "directive list" "directive list"

definition define_macro :: "string \<Rightarrow> macro \<Rightarrow> pp_state \<Rightarrow> pp_state" where
  "define_macro n m st =
     \<lparr>macros = (macros st)(n \<mapsto> m),
      redefined =
        (case macros st n of
           None \<Rightarrow> redefined st
         | Some m' \<Rightarrow> if m' = m then redefined st else redefined st @ [n])\<rparr>"

fun directive_step :: "directive \<Rightarrow> pp_state \<Rightarrow> pp_error + pp_state"
  and directives :: "directive list \<Rightarrow> pp_state \<Rightarrow> pp_error + pp_state" where
  "directive_step (Pragma p) st = Inr st"
| "directive_step (Define n m) st = Inr (define_macro n m st)"
| "directive_step (IfElse c ds es) st =
     (case pp_eval (macros st) c of
        Inl e \<Rightarrow> Inl e
      | Inr v \<Rightarrow> if v \<noteq> 0 then directives ds st else directives es st)"
| "directives [] st = Inr st"
| "directives (d # ds) st =
     (case directive_step d st of
        Inl e \<Rightarrow> Inl e
      | Inr st' \<Rightarrow> directives ds st')"

subsection \<open>The header\<close>

definition AMQP_DEBUG_default :: directive where
  "AMQP_DEBUG_default = Define ''AMQP_DEBUG'' (ObjectLike [TInt 1])"

definition DBG_enabled :: macro where
  "DBG_enabled =
     FunctionLike [''X''] [TIdent ''std'', TScope, TIdent ''cout'', TShl, TIdent ''X'']"

definition DBG_disabled :: macro where
  "DBG_disabled = FunctionLike [''X''] []"

definition DBG_condition :: ppexpr where
  "DBG_condition = PAnd (PDefined ''AMQP_DEBUG'') (PGe (PName ''AMQP_DEBUG'') (PNum 1))"

definition DBG_conditional :: directive where
  "DBG_conditional =
     IfElse DBG_condition [Define ''DBG'' DBG_enabled] [Define ''DBG'' DBG_disabled]"

text \<open>
  The state of the flag in a macro table, and the two modes: which of the two
  definitions of \<open>DBG\<close> a macro table holds.
\<close>

definition flag :: "macros \<Rightarrow> macro option" where
  "flag M = M ''AMQP_DEBUG''"

definition enabled :: "macros \<Rightarrow> bool" where
  "enabled M = (M ''DBG'' = Some DBG_enabled)"

definition disabled :: "macros \<Rightarrow> bool" where
  "disabled M = (M ''DBG'' = Some DBG_disabled)"

definition debug_h :: "directive list" where
  "debug_h = [Pragma ''once'', AMQP_DEBUG_default, DBG_conditional]"

text \<open>
  A translation unit that includes the header: \<open>env\<close> holds the macros defined before
  the inclusion (on the command line or by earlier \<^verbatim>\<open>#define\<close> lines).
\<close>

definition before_include :: "macros \<Rightarrow> pp_state" where
  "before_include env = \<lparr>macros = env, redefined = []\<rparr>"

definition include_debug_h :: "macros \<Rightarrow> pp_error + pp_state" where
  "include_debug_h env = directives debug_h (before_include env)"

text \<open>
  Lines 9 to 13 alone, run on a macro table in which the flag has the state the caller
  chooses: what the conditional does when the flag is absent, zero, negative, positive.
\<close>

definition conditional_only :: "macros \<Rightarrow> pp_error + pp_state" where
  "conditional_only env = directive_step DBG_conditional (before_include env)"

subsection \<open>Macro invocation\<close>

text \<open>
  \<open>split_args d cur ts\<close> splits the tokens between the parentheses of an invocation at
  the commas outside nested parentheses; it fails when the parentheses do not match.
\<close>

fun split_args :: "nat \<Rightarrow> token list \<Rightarrow> token list \<Rightarrow> token list list option" where
  "split_args d cur [] = (if d = 0 then Some [rev cur] else None)"
| "split_args d cur (TLParen # ts) = split_args (Suc d) (TLParen # cur) ts"
| "split_args d cur (TRParen # ts) =
     (case d of 0 \<Rightarrow> None | Suc d' \<Rightarrow> split_args d' (TRParen # cur) ts)"
| "split_args d cur (TComma # ts) =
     (if d = 0 then map_option ((#) (rev cur)) (split_args 0 [] ts)
      else split_args d (TComma # cur) ts)"
| "split_args d cur (t # ts) = split_args d (t # cur) ts"

fun substitute :: "(string \<times> token list) list \<Rightarrow> token list \<Rightarrow> token list" where
  "substitute \<sigma> [] = []"
| "substitute \<sigma> (TIdent x # ts) =
     (case map_of \<sigma> x of Some a \<Rightarrow> a | None \<Rightarrow> [TIdent x]) @ substitute \<sigma> ts"
| "substitute \<sigma> (t # ts) = t # substitute \<sigma> ts"

text \<open>
  \<open>invoke M n E\<close> is the token sequence that replaces the source text \<open>n ( E )\<close>.
  The argument tokens are taken as they stand after their own macro replacement, and
  the replacement list is not scanned again: no replacement list of the header names a
  macro of the header.
\<close>

definition invoke :: "macros \<Rightarrow> string \<Rightarrow> token list \<Rightarrow> pp_error + token list" where
  "invoke M n E =
     (case M n of
        None \<Rightarrow> Inr (TIdent n # TLParen # E @ [TRParen])
      | Some (ObjectLike body) \<Rightarrow> Inr (body @ TLParen # E @ [TRParen])
      | Some (FunctionLike ps body) \<Rightarrow>
          (case split_args 0 [] E of
             None \<Rightarrow> Inl Unbalanced
           | Some as \<Rightarrow>
               if length as = length ps \<or> (ps = [] \<and> as = [[]])
               then Inr (substitute (zip ps as) body)
               else Inl (WrongArgCount (length ps) (length as))))"

definition DBG :: "macros \<Rightarrow> token list \<Rightarrow> pp_error + token list" where
  "DBG M E = invoke M ''DBG'' E"

text \<open>A token sequence that is one macro argument: matched parentheses, no outer comma.\<close>

fun one_argument :: "nat \<Rightarrow> token list \<Rightarrow> bool" where
  "one_argument d [] = (d = 0)"
| "one_argument d (TLParen # ts) = one_argument (Suc d) ts"
| "one_argument d (TRParen # ts) = (case d of 0 \<Rightarrow> False | Suc d' \<Rightarrow> one_argument d' ts)"
| "one_argument d (TComma # ts) = (0 < d \<and> one_argument d ts)"
| "one_argument d (t # ts) = one_argument d ts"

subsection \<open>The text of a consumer\<close>

text \<open>
  The text that follows the inclusion is a list of pieces: plain tokens, which name no
  macro, and macro invocations \<open>n ( E )\<close>. \<open>emit E\<close> is the statement
  \<^verbatim>\<open>DBG(E);\<close> and \<open>direct E\<close> the tokens \<^verbatim>\<open>std::cout << E\<close>, which stream \<open>E\<close>
  without the macro.
\<close>

datatype piece = Plain "token list" | Invocation string "token list"

fun expand_text :: "macros \<Rightarrow> piece list \<Rightarrow> pp_error + token list" where
  "expand_text M [] = Inr []"
| "expand_text M (Plain ts # ps) =
     (case expand_text M ps of Inl e \<Rightarrow> Inl e | Inr r \<Rightarrow> Inr (ts @ r))"
| "expand_text M (Invocation n E # ps) =
     (case invoke M n E of
        Inl e \<Rightarrow> Inl e
      | Inr ts \<Rightarrow>
          (case expand_text M ps of Inl e \<Rightarrow> Inl e | Inr r \<Rightarrow> Inr (ts @ r)))"

definition emit :: "token list \<Rightarrow> piece list" where
  "emit E = [Invocation ''DBG'' E, Plain [TSemi]]"

definition direct :: "token list \<Rightarrow> token list" where
  "direct E = [TIdent ''std'', TScope, TIdent ''cout'', TShl] @ E"

section \<open>The fragment of C++ behind \<^verbatim>\<open>std::cout << X\<close>\<close>

subsection \<open>Expressions and statements\<close>

text \<open>
  Expressions: \<^verbatim>\<open>std::cout\<close>, integer and string literals, \<^verbatim>\<open>int\<close> variables
  \<^verbatim>\<open>x\<close> and calls \<^verbatim>\<open>f()\<close> of functions of the consumer, the stream insertion
  \<^verbatim>\<open>a << b\<close> and the conditional \<^verbatim>\<open>c ? a : b\<close>. Statements: the empty statement
  \<^verbatim>\<open>;\<close> and the expression statement \<^verbatim>\<open>e;\<close>.
\<close>

datatype expr =
    Cout
  | IntE nat
  | StrE string
  | Var string
  | Call string
  | Shl expr expr
  | Cond expr expr expr

datatype stmt = Empty | ExprStmt expr

subsection \<open>Parsing\<close>

text \<open>
  Recursive descent with the precedences of C++: a primary expression binds tighter than
  \<^verbatim>\<open><<\<close>, which associates to the left and binds tighter than \<^verbatim>\<open>?:\<close>, which
  associates to the right. Each function returns the expression and the tokens left.
  \<open>within ts\<close> keeps a result whose rest is no longer than \<open>ts\<close>; it never rejects a
  result (lemma \<open>within_parse\<close>) and is there for the termination proof.
\<close>

type_synonym parsed = "(expr \<times> token list) option"

definition within :: "token list \<Rightarrow> parsed \<Rightarrow> parsed" where
  "within ts p =
     (case p of
        None \<Rightarrow> None
      | Some (e, r) \<Rightarrow> if length r \<le> length ts then Some (e, r) else None)"

definition expect :: "token \<Rightarrow> parsed \<Rightarrow> parsed" where
  "expect t p =
     (case p of
        Some (e, t' # r) \<Rightarrow> if t' = t then Some (e, r) else None
      | _ \<Rightarrow> None)"

function parse_primary :: "token list \<Rightarrow> parsed"
  and parse_shift_rest :: "expr \<Rightarrow> token list \<Rightarrow> parsed"
  and parse_shift :: "token list \<Rightarrow> parsed"
  and parse_cond :: "token list \<Rightarrow> parsed" where
  "parse_primary ts =
     (case ts of
        TInt n # r \<Rightarrow> Some (IntE n, r)
      | TStr x # r \<Rightarrow> Some (StrE x, r)
      | TIdent a # TScope # TIdent b # r \<Rightarrow>
          if a = ''std'' \<and> b = ''cout'' then Some (Cout, r) else None
      | TIdent f # TLParen # TRParen # r \<Rightarrow> Some (Call f, r)
      | TIdent x # r \<Rightarrow>
          if take 1 r = [TScope] \<or> take 1 r = [TLParen] then None else Some (Var x, r)
      | TLParen # r \<Rightarrow> expect TRParen (within r (parse_cond r))
      | _ \<Rightarrow> None)"
| "parse_shift_rest e ts =
     (case ts of
        TShl # r \<Rightarrow>
          (case within r (parse_primary r) of
             Some (e', r') \<Rightarrow> parse_shift_rest (Shl e e') r'
           | None \<Rightarrow> None)
      | _ \<Rightarrow> Some (e, ts))"
| "parse_shift ts =
     (case within ts (parse_primary ts) of
        Some (e, r) \<Rightarrow> parse_shift_rest e r
      | None \<Rightarrow> None)"
| "parse_cond ts =
     (case within ts (parse_shift ts) of
        Some (c, TQuest # r) \<Rightarrow>
          (case within r (parse_cond r) of
             Some (a, TColon # r') \<Rightarrow>
               (case parse_cond r' of
                  Some (b, r'') \<Rightarrow> Some (Cond c a b, r'')
                | None \<Rightarrow> None)
           | _ \<Rightarrow> None)
      | other \<Rightarrow> other)"
  by pat_completeness auto
termination
  by (relation "measure (\<lambda>x. case x of
         Inl (Inl ts) \<Rightarrow> 4 * length ts + 1
       | Inl (Inr (e, ts)) \<Rightarrow> 4 * length ts
       | Inr (Inl ts) \<Rightarrow> 4 * length ts + 2
       | Inr (Inr ts) \<Rightarrow> 4 * length ts + 3)")
    (auto simp: within_def split: option.splits if_splits)

declare parse_primary.simps [simp del] parse_shift_rest.simps [simp del]
  parse_shift.simps [simp del] parse_cond.simps [simp del]

definition parse_stmt :: "token list \<Rightarrow> (stmt \<times> token list) option" where
  "parse_stmt ts =
     (if take 1 ts = [TSemi] then Some (Empty, tl ts)
      else (case expect TSemi (within ts (parse_cond ts)) of
              None \<Rightarrow> None
            | Some (e, r) \<Rightarrow> Some (ExprStmt e, r)))"

function parse_stmts :: "token list \<Rightarrow> stmt list option" where
  "parse_stmts ts =
     (if ts = [] then Some []
      else (case parse_stmt ts of
              None \<Rightarrow> None
            | Some (c, r) \<Rightarrow>
                (case parse_stmts r of None \<Rightarrow> None | Some cs \<Rightarrow> Some (c # cs))))"
  by pat_completeness auto
termination
  by (relation "measure length")
    (auto simp: parse_stmt_def expect_def within_def
          split: if_splits option.splits list.splits)

declare parse_stmts.simps [simp del]

subsection \<open>Types\<close>

text \<open>
  \<open>typeof e\<close> is the type that \<open>e\<close> has in the fragment. The insertion
  \<^verbatim>\<open>operator<<\<close> takes a stream on the left and an integer or a string on the right,
  and returns the stream; a stream is not streamable. The condition of \<^verbatim>\<open>?:\<close> may
  have any of the three types (each converts to \<^verbatim>\<open>bool\<close> in a condition); the two
  arms have one type.
\<close>

datatype ty = TyStream | TyInt | TyStr

fun streamable :: "ty \<Rightarrow> bool" where
  "streamable TyStream = False"
| "streamable TyInt = True"
| "streamable TyStr = True"

fun typeof :: "expr \<Rightarrow> ty option" where
  "typeof Cout = Some TyStream"
| "typeof (IntE n) = Some TyInt"
| "typeof (StrE x) = Some TyStr"
| "typeof (Var x) = Some TyInt"
| "typeof (Call f) = Some TyInt"
| "typeof (Shl a b) =
     (case (typeof a, typeof b) of
        (Some TyStream, Some t) \<Rightarrow> if streamable t then Some TyStream else None
      | _ \<Rightarrow> None)"
| "typeof (Cond c a b) =
     (case (typeof c, typeof a, typeof b) of
        (Some tc, Some ta, Some tb) \<Rightarrow> if ta = tb then Some ta else None
      | _ \<Rightarrow> None)"

fun well_typed :: "stmt \<Rightarrow> bool" where
  "well_typed Empty = True"
| "well_typed (ExprStmt e) = (case typeof e of None \<Rightarrow> False | Some t \<Rightarrow> True)"

text \<open>
  \<open>ill_typed e\<close>: a C++17 compiler rejects \<open>e\<close>, because no \<^verbatim>\<open>operator<<\<close> and no
  conversion fits the types of the operands. A stream is no right operand of \<^verbatim>\<open><<\<close>
  (the conversion of a stream to \<^verbatim>\<open>bool\<close> is explicit); a string is no left operand
  of \<^verbatim>\<open><<\<close>; an integer on the left takes an integer on the right only; the arms of
  \<^verbatim>\<open>?:\<close> have no common type when their types differ, unless one is a string and the
  other the literal \<open>0\<close>, which is a null pointer constant.

  An expression can be neither typed nor ill-typed. It is then outside the fragment,
  which has no arithmetic and no pointers: the shift \<^verbatim>\<open>1 << 2\<close> of two integers and
  the conditional \<^verbatim>\<open>c ? "a" : 0\<close> are accepted by a compiler, and the model says nothing
  of them.
\<close>

fun null_pointer_constant :: "expr \<Rightarrow> bool" where
  "null_pointer_constant (IntE n) = (n = 0)"
| "null_pointer_constant e = False"

fun ill_typed :: "expr \<Rightarrow> bool" where
  "ill_typed (Shl a b) =
     (ill_typed a \<or> ill_typed b \<or>
      (case (typeof a, typeof b) of
         (Some TyStream, Some tb) \<Rightarrow> \<not> streamable tb
       | (Some TyInt, Some tb) \<Rightarrow> tb \<noteq> TyInt
       | (Some TyStr, Some tb) \<Rightarrow> True
       | _ \<Rightarrow> False))"
| "ill_typed (Cond c a b) =
     (ill_typed c \<or> ill_typed a \<or> ill_typed b \<or>
      (case (typeof a, typeof b) of
         (Some ta, Some tb) \<Rightarrow>
           ta \<noteq> tb
           \<and> \<not> (ta = TyStr \<and> null_pointer_constant b)
           \<and> \<not> (tb = TyStr \<and> null_pointer_constant a)
       | _ \<Rightarrow> False))"
| "ill_typed e = False"

fun rejected :: "stmt \<Rightarrow> bool" where
  "rejected Empty = False"
| "rejected (ExprStmt e) = ill_typed e"

subsection \<open>Evaluation\<close>

datatype failure =
    Preprocess pp_error
  | SyntaxError
  | TypeError
  | OutsideFragment
  | RuntimeFault
  | Raised string

text \<open>
  The state is the bytes written to \<^verbatim>\<open>std::cout\<close> so far and the state of the consumer,
  of any type \<open>'u\<close>. The consumer \<open>\<phi>\<close> says how a variable \<open>x\<close> is read from this
  state (\<open>var \<phi> x\<close>) and what a function \<open>f\<close> does (\<open>call \<phi> f\<close>, a state transformer
  that returns an \<^verbatim>\<open>int\<close> and a new consumer state). The operands of \<^verbatim>\<open><<\<close> are evaluated
  from left to right, the order that C++17 fixes for this operator. The stream is taken
  to be in its good state: an insertion appends the bytes of the value, and the stream
  converts to \<^verbatim>\<open>true\<close>.
  The functions of the consumer return: no exception leaves them.
  \<^const>\<open>RuntimeFault\<close> is what an expression without a type evaluates to; a compiled
  program never reaches it (lemma \<open>typeof_eval\<close>). The evaluation with exceptions and
  with the error state of the stream, which gives \<^const>\<open>Raised\<close>, comes below.
\<close>

datatype val = VStream | VInt int | VStr string

fun digits :: "nat \<Rightarrow> string" where
  "digits n =
     (if n < 10 then [''0123456789'' ! n]
      else digits (n div 10) @ [''0123456789'' ! (n mod 10)])"

declare digits.simps [simp del]

definition show_int :: "int \<Rightarrow> string" where
  "show_int i = (if i < 0 then CHR ''-'' # digits (nat (- i)) else digits (nat i))"

fun inserted :: "val \<Rightarrow> string option" where
  "inserted VStream = None"
| "inserted (VInt i) = Some (show_int i)"
| "inserted (VStr x) = Some x"

fun truthy :: "val \<Rightarrow> bool" where
  "truthy VStream = True"
| "truthy (VInt i) = (i \<noteq> 0)"
| "truthy (VStr x) = True"

fun val_ty :: "val \<Rightarrow> ty" where
  "val_ty VStream = TyStream"
| "val_ty (VInt i) = TyInt"
| "val_ty (VStr x) = TyStr"

record 'u state =
  out :: string
  user :: 'u

record 'u consumer =
  var :: "string \<Rightarrow> 'u \<Rightarrow> int"
  call :: "string \<Rightarrow> 'u \<Rightarrow> int \<times> 'u"

fun eval :: "'u consumer \<Rightarrow> expr \<Rightarrow> 'u state \<Rightarrow> failure + (val \<times> 'u state)" where
  "eval \<phi> Cout s = Inr (VStream, s)"
| "eval \<phi> (IntE n) s = Inr (VInt (int n), s)"
| "eval \<phi> (StrE x) s = Inr (VStr x, s)"
| "eval \<phi> (Var x) s = Inr (VInt (var \<phi> x (user s)), s)"
| "eval \<phi> (Call f) s =
     (case call \<phi> f (user s) of (r, u') \<Rightarrow> Inr (VInt r, s\<lparr>user := u'\<rparr>))"
| "eval \<phi> (Shl a b) s =
     (case eval \<phi> a s of
        Inl e \<Rightarrow> Inl e
      | Inr (va, s1) \<Rightarrow>
          (case eval \<phi> b s1 of
             Inl e \<Rightarrow> Inl e
           | Inr (vb, s2) \<Rightarrow>
               (case (va, inserted vb) of
                  (VStream, Some bytes) \<Rightarrow> Inr (VStream, s2\<lparr>out := out s2 @ bytes\<rparr>)
                | _ \<Rightarrow> Inl RuntimeFault)))"
| "eval \<phi> (Cond c a b) s =
     (case eval \<phi> c s of
        Inl e \<Rightarrow> Inl e
      | Inr (vc, s1) \<Rightarrow> if truthy vc then eval \<phi> a s1 else eval \<phi> b s1)"

fun exec :: "'u consumer \<Rightarrow> stmt \<Rightarrow> 'u state \<Rightarrow> failure + 'u state" where
  "exec \<phi> Empty s = Inr s"
| "exec \<phi> (ExprStmt e) s =
     (case eval \<phi> e s of Inl f \<Rightarrow> Inl f | Inr (v, s') \<Rightarrow> Inr s')"

fun run :: "'u consumer \<Rightarrow> stmt list \<Rightarrow> 'u state \<Rightarrow> failure + 'u state" where
  "run \<phi> [] s = Inr s"
| "run \<phi> (c # cs) s =
     (case exec \<phi> c s of Inl f \<Rightarrow> Inl f | Inr s' \<Rightarrow> run \<phi> cs s')"

subsection \<open>Building and running a translation unit\<close>

text \<open>
  A program is compiled when each of its statements has a type. It is refused with
  \<^const>\<open>TypeError\<close> when one of its statements is ill-typed, and with
  \<^const>\<open>OutsideFragment\<close> when a statement is outside the fragment (the model does not
  say whether a compiler accepts it).
\<close>

definition compile :: "token list \<Rightarrow> failure + stmt list" where
  "compile ts =
     (case parse_stmts ts of
        None \<Rightarrow> Inl SyntaxError
      | Some p \<Rightarrow>
          if list_all well_typed p then Inr p
          else if list_ex rejected p then Inl TypeError
          else Inl OutsideFragment)"

text \<open>
  \<open>build_and_run M text \<phi> s\<close>: the text is preprocessed with the macro table \<open>M\<close>,
  compiled and run from the state \<open>s\<close>. The failures of the first two steps are those
  of the build; \<^const>\<open>RuntimeFault\<close> and \<^const>\<open>Raised\<close> are failures of the run.
\<close>

definition build_and_run ::
  "macros \<Rightarrow> piece list \<Rightarrow> 'u consumer \<Rightarrow> 'u state \<Rightarrow> failure + 'u state" where
  "build_and_run M text \<phi> s =
     (case expand_text M text of
        Inl e \<Rightarrow> Inl (Preprocess e)
      | Inr ts \<Rightarrow>
          (case compile ts of
             Inl f \<Rightarrow> Inl f
           | Inr p \<Rightarrow> run \<phi> p s))"

definition after_header ::
  "pp_error + pp_state \<Rightarrow> piece list \<Rightarrow> 'u consumer \<Rightarrow> 'u state \<Rightarrow> failure + 'u state" where
  "after_header h text \<phi> s =
     (case h of
        Inl e \<Rightarrow> Inl (Preprocess e)
      | Inr st \<Rightarrow> build_and_run (macros st) text \<phi> s)"

definition translation_unit ::
  "macros \<Rightarrow> piece list \<Rightarrow> 'u consumer \<Rightarrow> 'u state \<Rightarrow> failure + 'u state" where
  "translation_unit env text \<phi> s = after_header (include_debug_h env) text \<phi> s"

fun build_failure :: "failure \<Rightarrow> bool" where
  "build_failure RuntimeFault = False"
| "build_failure (Raised x) = False"
| "build_failure f = True"

subsection \<open>Exceptions and the error state of the stream\<close>

text \<open>
  The evaluation above takes the functions of the consumer to return and the stream to be
  good. The evaluation below drops both assumptions. A function of the consumer returns
  or throws (\<open>Inl x\<close>, the exception \<open>x\<close>), and an exception leaves the statement, since
  nothing in the fragment catches it. The state has the error state of \<^verbatim>\<open>std::cout\<close>:
  an insertion writes its bytes into a stream that is good, and writes nothing into a
  stream that has failed, which stays failed; with the exception mask that
  \<^verbatim>\<open>std::cout\<close> has by default the insertion throws nothing in either case. A stream
  converts to \<^verbatim>\<open>true\<close> when it has not failed.
  The operands of \<^verbatim>\<open><<\<close> are evaluated from left to right, so that an exception
  thrown by the right operand leaves before its insertion. On a good stream and with
  functions that return, this evaluation is the one above (lemma \<open>eval_x_returning\<close>).
\<close>

record 'u xstate = "'u state" +
  failed :: bool

record 'u xconsumer =
  xvar :: "string \<Rightarrow> 'u \<Rightarrow> int"
  xcall :: "string \<Rightarrow> 'u \<Rightarrow> string + int \<times> 'u"

definition insertion :: "string \<Rightarrow> 'u xstate \<Rightarrow> 'u xstate" where
  "insertion bytes s = (if failed s then s else s\<lparr>out := out s @ bytes\<rparr>)"

fun truthy_x :: "val \<Rightarrow> 'u xstate \<Rightarrow> bool" where
  "truthy_x VStream s = (\<not> failed s)"
| "truthy_x (VInt i) s = (i \<noteq> 0)"
| "truthy_x (VStr x) s = True"

fun eval_x :: "'u xconsumer \<Rightarrow> expr \<Rightarrow> 'u xstate \<Rightarrow> failure + (val \<times> 'u xstate)" where
  "eval_x \<phi> Cout s = Inr (VStream, s)"
| "eval_x \<phi> (IntE n) s = Inr (VInt (int n), s)"
| "eval_x \<phi> (StrE x) s = Inr (VStr x, s)"
| "eval_x \<phi> (Var x) s = Inr (VInt (xvar \<phi> x (user s)), s)"
| "eval_x \<phi> (Call f) s =
     (case xcall \<phi> f (user s) of
        Inl x \<Rightarrow> Inl (Raised x)
      | Inr (r, u') \<Rightarrow> Inr (VInt r, s\<lparr>user := u'\<rparr>))"
| "eval_x \<phi> (Shl a b) s =
     (case eval_x \<phi> a s of
        Inl e \<Rightarrow> Inl e
      | Inr (va, s1) \<Rightarrow>
          (case eval_x \<phi> b s1 of
             Inl e \<Rightarrow> Inl e
           | Inr (vb, s2) \<Rightarrow>
               (case (va, inserted vb) of
                  (VStream, Some bytes) \<Rightarrow> Inr (VStream, insertion bytes s2)
                | _ \<Rightarrow> Inl RuntimeFault)))"
| "eval_x \<phi> (Cond c a b) s =
     (case eval_x \<phi> c s of
        Inl e \<Rightarrow> Inl e
      | Inr (vc, s1) \<Rightarrow> if truthy_x vc s1 then eval_x \<phi> a s1 else eval_x \<phi> b s1)"

fun exec_x :: "'u xconsumer \<Rightarrow> stmt \<Rightarrow> 'u xstate \<Rightarrow> failure + 'u xstate" where
  "exec_x \<phi> Empty s = Inr s"
| "exec_x \<phi> (ExprStmt e) s =
     (case eval_x \<phi> e s of Inl f \<Rightarrow> Inl f | Inr (v, s') \<Rightarrow> Inr s')"

fun run_x :: "'u xconsumer \<Rightarrow> stmt list \<Rightarrow> 'u xstate \<Rightarrow> failure + 'u xstate" where
  "run_x \<phi> [] s = Inr s"
| "run_x \<phi> (c # cs) s =
     (case exec_x \<phi> c s of Inl f \<Rightarrow> Inl f | Inr s' \<Rightarrow> run_x \<phi> cs s')"

definition build_and_run_x ::
  "macros \<Rightarrow> piece list \<Rightarrow> 'u xconsumer \<Rightarrow> 'u xstate \<Rightarrow> failure + 'u xstate" where
  "build_and_run_x M text \<phi> s =
     (case expand_text M text of
        Inl e \<Rightarrow> Inl (Preprocess e)
      | Inr ts \<Rightarrow>
          (case compile ts of
             Inl f \<Rightarrow> Inl f
           | Inr p \<Rightarrow> run_x \<phi> p s))"

definition translation_unit_x ::
  "macros \<Rightarrow> piece list \<Rightarrow> 'u xconsumer \<Rightarrow> 'u xstate \<Rightarrow> failure + 'u xstate" where
  "translation_unit_x env text \<phi> s =
     (case include_debug_h env of
        Inl e \<Rightarrow> Inl (Preprocess e)
      | Inr st \<Rightarrow> build_and_run_x (macros st) text \<phi> s)"

text \<open>
  \<open>stream_x \<phi> v s\<close> is what the statement \<^verbatim>\<open>std::cout << v;\<close> does: \<open>v\<close> is evaluated
  once, and the bytes of its value are inserted in the state that the evaluation left.
\<close>

definition stream_x :: "'u xconsumer \<Rightarrow> expr \<Rightarrow> 'u xstate \<Rightarrow> failure + 'u xstate" where
  "stream_x \<phi> v s =
     (case eval_x \<phi> v s of
        Inl f \<Rightarrow> Inl f
      | Inr (x, s') \<Rightarrow>
          (case inserted x of
             None \<Rightarrow> Inl RuntimeFault
           | Some bytes \<Rightarrow> Inr (insertion bytes s')))"

text \<open>
  A consumer whose functions return, and a state whose stream is good, in the terms of
  this evaluation.
\<close>

definition returning :: "'u consumer \<Rightarrow> 'u xconsumer" where
  "returning \<phi> = \<lparr>xvar = var \<phi>, xcall = (\<lambda>f u. Inr (call \<phi> f u))\<rparr>"

definition good :: "'u state \<Rightarrow> 'u xstate" where
  "good s = \<lparr>out = out s, user = user s, failed = False\<rparr>"

subsection \<open>Values, chains and contexts\<close>

text \<open>
  The vocabulary of the claims. \<open>primary V v\<close>: the tokens \<open>V\<close> are one primary
  expression \<open>v\<close> (a literal, a variable, a call, \<^verbatim>\<open>std::cout\<close> or a parenthesised
  expression); a value to stream is a primary expression of a streamable type. \<open>chain V Vs\<close> is the
  text \<^verbatim>\<open>V << V1 << ... << Vn\<close>, and \<open>insert_each\<close> evaluates expressions from
  left to right, appending the bytes of each value to the output as soon as it is
  computed.
\<close>

text \<open>The tokens that can follow a complete operand of \<^verbatim>\<open><<\<close> and end the chain.\<close>

fun follows_operand :: "token \<Rightarrow> bool" where
  "follows_operand TSemi = True"
| "follows_operand TRParen = True"
| "follows_operand TQuest = True"
| "follows_operand TColon = True"
| "follows_operand t = False"

definition cout :: "token list" where
  "cout = [TIdent ''std'', TScope, TIdent ''cout'']"

definition chain :: "token list \<Rightarrow> token list list \<Rightarrow> token list" where
  "chain V Vs = V @ concat (map ((#) TShl) Vs)"

definition primary :: "token list \<Rightarrow> expr \<Rightarrow> bool" where
  "primary V v = (parse_primary V = Some (v, []))"

definition streamable_expr :: "expr \<Rightarrow> bool" where
  "streamable_expr v = (case typeof v of None \<Rightarrow> False | Some t \<Rightarrow> streamable t)"

fun insert_each :: "'u consumer \<Rightarrow> expr list \<Rightarrow> 'u state \<Rightarrow> failure + 'u state" where
  "insert_each \<phi> [] s = Inr s"
| "insert_each \<phi> (v # vs) s =
     (case eval \<phi> v s of
        Inl f \<Rightarrow> Inl f
      | Inr (x, s') \<Rightarrow>
          (case inserted x of
             None \<Rightarrow> Inl RuntimeFault
           | Some bytes \<Rightarrow> insert_each \<phi> vs (s'\<lparr>out := out s' @ bytes\<rparr>)))"

text \<open>
  Call sites that use \<^verbatim>\<open>DBG(V)\<close> as an operand: \<^verbatim>\<open>DBG(V) << W;\<close>,
  \<^verbatim>\<open>DBG(V) ? A : B;\<close>, \<^verbatim>\<open>(DBG(V));\<close> and \<^verbatim>\<open>C ? DBG(V) : DBG(W);\<close>.
\<close>

definition as_left_operand :: "token list \<Rightarrow> token list \<Rightarrow> piece list" where
  "as_left_operand V W = [Invocation ''DBG'' V, Plain (TShl # W @ [TSemi])]"

definition as_condition :: "token list \<Rightarrow> token list \<Rightarrow> token list \<Rightarrow> piece list" where
  "as_condition V A B = [Invocation ''DBG'' V, Plain (TQuest # A @ TColon # B @ [TSemi])]"

definition parenthesised :: "token list \<Rightarrow> piece list" where
  "parenthesised V = [Plain [TLParen], Invocation ''DBG'' V, Plain [TRParen, TSemi]]"

definition as_arms :: "token list \<Rightarrow> token list \<Rightarrow> token list \<Rightarrow> piece list" where
  "as_arms C V W =
     [Plain (C @ [TQuest]), Invocation ''DBG'' V, Plain [TColon], Invocation ''DBG'' W,
      Plain [TSemi]]"

text \<open>The call site \<^verbatim>\<open>g(DBG(V));\<close>, which passes \<^verbatim>\<open>DBG(V)\<close> as the argument of a call.\<close>

definition as_argument :: "string \<Rightarrow> token list \<Rightarrow> piece list" where
  "as_argument g V = [Plain [TIdent g, TLParen], Invocation ''DBG'' V, Plain [TRParen, TSemi]]"

definition conditional_example :: "token list" where
  "conditional_example = [TInt 1, TQuest, TStr ''a'', TColon, TStr ''b'']"

definition parenthesise :: "token list \<Rightarrow> token list" where
  "parenthesise E = TLParen # E @ [TRParen]"

subsection \<open>Concrete consumers\<close>

text \<open>
  No macro defined before the inclusion; one object-like macro defined before it; a
  table that holds one definition of \<open>DBG\<close>; a consumer whose state is a counter, whose
  variables read it and whose functions increment it and return the new count; a
  consumer whose state is a log of calls, whose variables read its length and whose
  functions append their name to it.
\<close>

definition no_macros :: macros where
  "no_macros = Map.empty"

definition predefined :: "string \<Rightarrow> token list \<Rightarrow> macros" where
  "predefined n body = no_macros(n \<mapsto> ObjectLike body)"

definition only :: "macro \<Rightarrow> macros" where
  "only m = no_macros(''DBG'' \<mapsto> m)"

definition counting :: "nat consumer" where
  "counting = \<lparr>var = (\<lambda>x n. int n), call = (\<lambda>f n. (int (Suc n), Suc n))\<rparr>"

definition logging :: "(string list) consumer" where
  "logging = \<lparr>var = (\<lambda>x l. int (length l)), call = (\<lambda>f l. (int (length l), l @ [f]))\<rparr>"

definition start :: "'u \<Rightarrow> 'u state" where
  "start u = \<lparr>out = [], user = u\<rparr>"

text \<open>
  A consumer whose functions all throw \<^verbatim>\<open>std::runtime_error\<close>, and a state whose
  stream has failed.
\<close>

definition throwing :: "nat xconsumer" where
  "throwing = \<lparr>xvar = (\<lambda>x n. int n), xcall = (\<lambda>f n. Inl ''std::runtime_error'')\<rparr>"

definition broken :: "'u state \<Rightarrow> 'u xstate" where
  "broken s = \<lparr>out = out s, user = user s, failed = True\<rparr>"

section \<open>Properties of the preprocessing\<close>

lemma split_args_one_argument:
  "one_argument d E \<Longrightarrow> split_args d cur E = Some [rev cur @ E]"
proof (induction d E arbitrary: cur rule: one_argument.induct)
  case (3 d ts)
  then show ?case by (cases d) auto
qed auto

lemma conditional_absent:
  "flag env = None \<Longrightarrow>
   conditional_only env = Inr (define_macro ''DBG'' DBG_disabled (before_include env))"
  by (simp add: flag_def conditional_only_def DBG_conditional_def DBG_condition_def
      before_include_def)

lemma conditional_literal:
  "flag env = Some (ObjectLike body) \<Longrightarrow> constant_value body = Inr v \<Longrightarrow>
   conditional_only env =
     Inr (define_macro ''DBG'' (if 1 \<le> v then DBG_enabled else DBG_disabled) (before_include env))"
  by (simp add: flag_def conditional_only_def DBG_conditional_def DBG_condition_def
      before_include_def)

lemma include_debug_h_result:
  "include_debug_h env =
     Inr (define_macro ''DBG'' DBG_enabled
           (define_macro ''AMQP_DEBUG'' (ObjectLike [TInt 1]) (before_include env)))"
  by (simp add: include_debug_h_def debug_h_def AMQP_DEBUG_default_def DBG_conditional_def DBG_condition_def
      define_macro_def intmax_max_def)

lemma macros_define_macro: "macros (define_macro n m st) = (macros st)(n \<mapsto> m)"
  by (simp add: define_macro_def)

lemma DBG_enabled_expands:
  "enabled M \<Longrightarrow> one_argument 0 E \<Longrightarrow> DBG M E = Inr (direct E)"
  by (simp add: enabled_def DBG_def invoke_def DBG_enabled_def split_args_one_argument direct_def)

lemma DBG_disabled_expands:
  "disabled M \<Longrightarrow> one_argument 0 E \<Longrightarrow> DBG M E = Inr []"
  by (simp add: disabled_def DBG_def invoke_def DBG_disabled_def split_args_one_argument)

lemma parse_stmts_semi: "parse_stmts [TSemi] = Some [Empty]"
  by (simp add: parse_stmts.simps parse_stmt_def)

lemma build_disabled:
  "disabled M \<Longrightarrow> one_argument 0 E \<Longrightarrow>
   build_and_run M (emit E) \<phi> s = Inr s"
  using DBG_disabled_expands [of M E]
  by (simp add: build_and_run_def emit_def DBG_def compile_def parse_stmts_semi)

section \<open>Properties of the parser\<close>

text \<open>What each parsing function accepts, read off its definition.\<close>

lemma within_Some: "within ts p = Some (e, r) \<longleftrightarrow> p = Some (e, r) \<and> length r \<le> length ts"
  by (auto simp: within_def split: option.splits)

lemma expect_Some: "expect t p = Some (e, r) \<longleftrightarrow> p = Some (e, t # r)"
  by (auto simp: expect_def split: option.splits list.splits)

lemma parse_primary_Some:
  "parse_primary ts = Some (e, r) \<longleftrightarrow>
     (\<exists>n. ts = TInt n # r \<and> e = IntE n) \<or>
     (\<exists>x. ts = TStr x # r \<and> e = StrE x) \<or>
     (ts = TIdent ''std'' # TScope # TIdent ''cout'' # r \<and> e = Cout) \<or>
     (\<exists>f. ts = TIdent f # TLParen # TRParen # r \<and> e = Call f) \<or>
     (\<exists>x. ts = TIdent x # r \<and> take 1 r \<noteq> [TScope] \<and> take 1 r \<noteq> [TLParen] \<and> e = Var x) \<or>
     (\<exists>ts'. ts = TLParen # ts' \<and> within ts' (parse_cond ts') = Some (e, TRParen # r))"
  by (subst parse_primary.simps)
    (auto simp: expect_Some split: list.splits token.splits)

lemma parse_shift_rest_Some:
  "parse_shift_rest e0 ts = Some (e, r) \<longleftrightarrow>
     (\<exists>ts' e' r'. ts = TShl # ts' \<and> within ts' (parse_primary ts') = Some (e', r')
         \<and> parse_shift_rest (Shl e0 e') r' = Some (e, r)) \<or>
     (take 1 ts \<noteq> [TShl] \<and> e = e0 \<and> r = ts)"
  by (subst parse_shift_rest.simps)
    (auto split: list.splits token.splits option.splits)

lemma parse_shift_Some:
  "parse_shift ts = Some (e, r) \<longleftrightarrow>
     (\<exists>e' r'. within ts (parse_primary ts) = Some (e', r') \<and> parse_shift_rest e' r' = Some (e, r))"
  by (subst parse_shift.simps) (auto split: option.splits)

lemma parse_cond_Some:
  "parse_cond ts = Some (e, r) \<longleftrightarrow>
     (\<exists>c ts' a ts'' b. within ts (parse_shift ts) = Some (c, TQuest # ts')
         \<and> within ts' (parse_cond ts') = Some (a, TColon # ts'')
         \<and> parse_cond ts'' = Some (b, r) \<and> e = Cond c a b) \<or>
     (within ts (parse_shift ts) = Some (e, r) \<and> take 1 r \<noteq> [TQuest])"
  by (subst parse_cond.simps)
    (auto split: list.splits token.splits option.splits)

lemma parse_primary_shorter:
  "parse_primary ts = Some (e, r) \<Longrightarrow> length r < length ts"
  by (auto simp: parse_primary_Some within_Some)

lemma parse_shift_rest_shorter:
  "parse_shift_rest e0 ts = Some (e, r) \<Longrightarrow> length r \<le> length ts"
proof (induction "length ts" arbitrary: ts e0 rule: less_induct)
  case less
  from less.prems consider
    (more) ts' e' r' where "ts = TShl # ts'" "within ts' (parse_primary ts') = Some (e', r')"
      "parse_shift_rest (Shl e0 e') r' = Some (e, r)"
    | (stop) "r = ts"
    by (auto simp: parse_shift_rest_Some [of e0 ts])
  then show ?case
  proof cases
    case more
    then have "length r' < length ts" by (simp add: within_Some)
    from less.hyps [OF this more(3)] this show ?thesis by simp
  next
    case stop
    then show ?thesis by simp
  qed
qed

lemma parse_shift_shorter:
  "parse_shift ts = Some (e, r) \<Longrightarrow> length r < length ts"
  by (auto simp: parse_shift_Some within_Some
      dest!: parse_primary_shorter parse_shift_rest_shorter)

lemma parse_cond_shorter:
  "parse_cond ts = Some (e, r) \<Longrightarrow> length r < length ts"
proof (induction "length ts" arbitrary: ts e rule: less_induct)
  case less
  from less.prems consider
    (ternary) c ts' a ts'' b where "within ts (parse_shift ts) = Some (c, TQuest # ts')"
      "within ts' (parse_cond ts') = Some (a, TColon # ts'')" "parse_cond ts'' = Some (b, r)"
    | (plain) "parse_shift ts = Some (e, r)"
    by (auto simp: parse_cond_Some [of ts] within_Some)
  then show ?case
  proof cases
    case ternary
    then have "length ts'' < length ts" by (simp add: within_Some)
    from less.hyps [OF this ternary(3)] this show ?thesis by simp
  next
    case plain
    then show ?thesis by (rule parse_shift_shorter)
  qed
qed

lemma within_parse [simp]:
  "within ts (parse_primary ts) = parse_primary ts"
  "within ts (parse_shift ts) = parse_shift ts"
  "within ts (parse_cond ts) = parse_cond ts"
  by (auto simp: within_def split: option.splits
      dest: parse_primary_shorter parse_shift_shorter parse_cond_shorter)

lemmas primary_iff = parse_primary_Some [unfolded within_parse]
lemmas shift_rest_iff = parse_shift_rest_Some [unfolded within_parse]
lemmas shift_iff = parse_shift_Some [unfolded within_parse]
lemmas cond_iff = parse_cond_Some [unfolded within_parse]

text \<open>
  A parse does not change when tokens are appended, as long as it did not stop at the
  end of the input. A primary expression that ends the input is still the same one
  when the appended tokens do not begin with \<^verbatim>\<open>::\<close> or \<^verbatim>\<open>(\<close>, which would
  continue an identifier.
\<close>

lemma parse_append:
  "(\<forall>e r zs. parse_primary ts = Some (e, r) \<and>
        (r \<noteq> [] \<or> (take 1 zs \<noteq> [TScope] \<and> take 1 zs \<noteq> [TLParen])) \<longrightarrow>
        parse_primary (ts @ zs) = Some (e, r @ zs)) \<and>
   (\<forall>e0 e t r zs. parse_shift_rest e0 ts = Some (e, t # r) \<longrightarrow>
        parse_shift_rest e0 (ts @ zs) = Some (e, t # r @ zs)) \<and>
   (\<forall>e t r zs. parse_shift ts = Some (e, t # r) \<longrightarrow> parse_shift (ts @ zs) = Some (e, t # r @ zs)) \<and>
   (\<forall>e t r zs. parse_cond ts = Some (e, t # r) \<longrightarrow> parse_cond (ts @ zs) = Some (e, t # r @ zs))"
proof (induction "length ts" arbitrary: ts rule: less_induct)
  case less
  have P: "parse_primary (ts @ zs) = Some (e, r @ zs)"
    if "parse_primary ts = Some (e, r)"
      and "r \<noteq> [] \<or> (take 1 zs \<noteq> [TScope] \<and> take 1 zs \<noteq> [TLParen])" for e r zs
  proof -
    from that(1) consider
      (atom) "\<not> (\<exists>ts'. ts = TLParen # ts')" "\<not> (\<exists>x. e = Var x)"
      | (var) x where "ts = TIdent x # r" "e = Var x"
        "take 1 r \<noteq> [TScope]" "take 1 r \<noteq> [TLParen]"
      | (paren) ts' where "ts = TLParen # ts'" "parse_cond ts' = Some (e, TRParen # r)"
      by (auto simp: primary_iff [of ts])
    then show ?thesis
    proof cases
      case atom
      with that show ?thesis
        by (auto simp: primary_iff [of ts] primary_iff [of "_ # _"])
    next
      case var
      with that(2) have "take 1 (r @ zs) \<noteq> [TScope] \<and> take 1 (r @ zs) \<noteq> [TLParen]"
        by (cases r) auto
      with var(1,2) show ?thesis
        by (auto simp: primary_iff [of "TIdent x # _"])
    next
      case paren
      then have "length ts' < length ts" by simp
      from less [OF this] paren(2) have "parse_cond (ts' @ zs) = Some (e, TRParen # r @ zs)"
        by blast
      with paren(1) show ?thesis by (simp add: primary_iff [of "TLParen # _"])
    qed
  qed
  have Q: "parse_shift_rest e0 (ts @ zs) = Some (e, t # r @ zs)"
    if "parse_shift_rest e0 ts = Some (e, t # r)" for e0 e t r zs
  proof -
    from that consider
      (more) ts' e' r' where "ts = TShl # ts'" "parse_primary ts' = Some (e', r')"
        "parse_shift_rest (Shl e0 e') r' = Some (e, t # r)"
      | (stop) "take 1 ts \<noteq> [TShl]" "e = e0" "t # r = ts"
      by (auto simp: shift_rest_iff [of e0 ts])
    then show ?thesis
    proof cases
      case more
      then have l: "length ts' < length ts" by simp
      from more(3) have "r' \<noteq> []" by (auto simp: shift_rest_iff [of _ "[]"])
      with less [OF l] more(2) have p: "parse_primary (ts' @ zs) = Some (e', r' @ zs)"
        by blast
      from more(2) l have "length r' < length ts" by (auto dest: parse_primary_shorter)
      from less [OF this] more(3)
      have "parse_shift_rest (Shl e0 e') (r' @ zs) = Some (e, t # r @ zs)" by blast
      with p more(1) show ?thesis by (simp add: shift_rest_iff [of e0 "TShl # _"])
    next
      case stop
      then have "take 1 (ts @ zs) \<noteq> [TShl]" by (cases ts) auto
      with stop show ?thesis by (auto simp: shift_rest_iff [of e0 "ts @ zs"])
    qed
  qed
  have R: "parse_shift (ts @ zs) = Some (e, t # r @ zs)"
    if "parse_shift ts = Some (e, t # r)" for e t r zs
  proof -
    from that obtain e' r' where a: "parse_primary ts = Some (e', r')"
      and b: "parse_shift_rest e' r' = Some (e, t # r)"
      by (auto simp: shift_iff [of ts])
    from a have "length r' < length ts" by (rule parse_primary_shorter)
    from less [OF this] b have "parse_shift_rest e' (r' @ zs) = Some (e, t # r @ zs)" by blast
    moreover from b have "r' \<noteq> []" by (auto simp: shift_rest_iff [of _ "[]"])
    ultimately show ?thesis using P [OF a, of zs] by (simp add: shift_iff [of "ts @ zs"])
  qed
  have S: "parse_cond (ts @ zs) = Some (e, t # r @ zs)"
    if "parse_cond ts = Some (e, t # r)" for e t r zs
  proof -
    from that consider
      (ternary) c ts' a ts'' b where "parse_shift ts = Some (c, TQuest # ts')"
        "parse_cond ts' = Some (a, TColon # ts'')" "parse_cond ts'' = Some (b, t # r)"
        "e = Cond c a b"
      | (plain) "parse_shift ts = Some (e, t # r)" "t \<noteq> TQuest"
      by (auto simp: cond_iff [of ts])
    then show ?thesis
    proof cases
      case ternary
      from ternary(1) have l1: "length ts' < length ts" by (auto dest: parse_shift_shorter)
      from ternary(2) l1 have l2: "length ts'' < length ts" by (auto dest: parse_cond_shorter)
      from less [OF l1] ternary(2) have a: "parse_cond (ts' @ zs) = Some (a, TColon # ts'' @ zs)"
        by blast
      from less [OF l2] ternary(3) have b: "parse_cond (ts'' @ zs) = Some (b, t # r @ zs)"
        by blast
      from R [OF ternary(1), of zs] a b ternary(4) show ?thesis
        by (simp add: cond_iff [of "ts @ zs"])
    next
      case plain
      from R [OF plain(1), of zs] plain(2) show ?thesis
        by (simp add: cond_iff [of "ts @ zs"])
    qed
  qed
  from P Q R S show ?case by blast
qed

lemma val_ty_stream: "val_ty v = TyStream \<longleftrightarrow> v = VStream"
  by (cases v) auto

lemma streamable_inserted: "streamable (val_ty v) \<Longrightarrow> \<exists>bytes. inserted v = Some bytes"
  by (cases v) auto

lemma typeof_eval:
  "typeof e = Some t \<Longrightarrow> \<exists>v s'. eval \<phi> e s = Inr (v, s') \<and> val_ty v = t"
proof (induction e arbitrary: t s)
  case (Call f)
  then show ?case by (cases "call \<phi> f (user s)") auto
next
  case (Shl a b)
  from Shl.prems obtain tb where ta: "typeof a = Some TyStream" and tb: "typeof b = Some tb"
    and st: "streamable tb" and t: "t = TyStream"
    by (auto split: option.splits ty.splits if_splits)
  from Shl.IH(1) [OF ta, of s] obtain s1 where a: "eval \<phi> a s = Inr (VStream, s1)"
    by (auto simp: val_ty_stream)
  from Shl.IH(2) [OF tb, of s1] obtain vb s2 where b: "eval \<phi> b s1 = Inr (vb, s2)"
    and vb: "val_ty vb = tb"
    by auto
  from st vb obtain bytes where "inserted vb = Some bytes"
    using streamable_inserted [of vb] by auto
  with a b t show ?case by simp
next
  case (Cond c a b)
  from Cond.prems obtain tc where tc: "typeof c = Some tc" and ta: "typeof a = Some t"
    and tb: "typeof b = Some t"
    by (auto split: option.splits if_splits)
  from Cond.IH(1) [OF tc, of s] obtain vc s1 where c: "eval \<phi> c s = Inr (vc, s1)"
    by auto
  from Cond.IH(2) [OF ta, of s1] Cond.IH(3) [OF tb, of s1] c show ?case
    by auto
qed auto

lemma parse_stmt_unguarded:
  "parse_stmt ts =
     (if take 1 ts = [TSemi] then Some (Empty, tl ts)
      else (case expect TSemi (parse_cond ts) of
              None \<Rightarrow> None
            | Some (e, r) \<Rightarrow> Some (ExprStmt e, r)))"
  by (simp add: parse_stmt_def)

lemma parse_stmts_Nil: "parse_stmts [] = Some []"
  by (simp add: parse_stmts.simps)

section \<open>Chains of insertions\<close>

lemma direct_chain: "direct V = chain cout [V]"
  by (simp add: direct_def chain_def cout_def)

lemma primary_cout: "primary cout Cout"
  by (simp add: primary_def cout_def primary_iff)

lemma primary_append:
  "primary V v \<Longrightarrow> follows_operand t \<or> t = TShl \<Longrightarrow>
   parse_primary (V @ t # zs) = Some (v, t # zs)"
  using parse_append [of V] by (cases t) (auto simp: primary_def)

lemma primary_head: "primary V v \<Longrightarrow> \<exists>t ts. V = t # ts \<and> t \<noteq> TSemi"
  by (auto simp: primary_def primary_iff)

lemma follows_operand_not_Shl: "follows_operand t \<Longrightarrow> t \<noteq> TShl"
  by (cases t) auto

lemma parse_shift_rest_chain:
  "list_all2 primary Vs vs \<Longrightarrow> follows_operand t \<Longrightarrow>
   parse_shift_rest e (concat (map ((#) TShl) Vs) @ t # rest) = Some (foldl Shl e vs, t # rest)"
proof (induction Vs vs arbitrary: e rule: list_all2_induct)
  case Nil
  then show ?case
    by (auto simp: shift_rest_iff [of e "t # rest"] dest: follows_operand_not_Shl)
next
  case (Cons V Vs v vs)
  obtain t' zs where zs: "concat (map ((#) TShl) Vs) @ t # rest = t' # zs"
    and t': "follows_operand t' \<or> t' = TShl"
    using Cons.prems by (cases Vs) auto
  from primary_append [OF Cons.hyps(1) t', of zs] zs
  have "parse_primary (V @ concat (map ((#) TShl) Vs) @ t # rest) =
      Some (v, concat (map ((#) TShl) Vs) @ t # rest)"
    by simp
  with Cons.IH [OF Cons.prems, of "Shl e v"] show ?case
    by (simp add: shift_rest_iff [of e "TShl # _"])
qed

lemma parse_shift_chain:
  assumes "primary V v" "list_all2 primary Vs vs" "follows_operand t"
  shows "parse_shift (chain V Vs @ t # rest) = Some (foldl Shl v vs, t # rest)"
proof -
  obtain t' zs where zs: "concat (map ((#) TShl) Vs) @ t # rest = t' # zs"
    and t': "follows_operand t' \<or> t' = TShl"
    using assms(3) by (cases Vs) auto
  from primary_append [OF assms(1) t', of zs] zs
  have "parse_primary (V @ concat (map ((#) TShl) Vs) @ t # rest) =
      Some (v, concat (map ((#) TShl) Vs) @ t # rest)"
    by simp
  with parse_shift_rest_chain [OF assms(2,3), of v rest] show ?thesis
    by (simp add: chain_def shift_iff [of "V @ _"])
qed

lemma parse_cond_chain:
  assumes "primary V v" "list_all2 primary Vs vs" "follows_operand t" "t \<noteq> TQuest"
  shows "parse_cond (chain V Vs @ t # rest) = Some (foldl Shl v vs, t # rest)"
  using parse_shift_chain [OF assms(1,2,3), of rest] assms(4)
  by (simp add: cond_iff [of "chain V Vs @ _"])

lemma parse_stmt_chain:
  assumes "primary V v" "list_all2 primary Vs vs"
  shows "parse_stmt (chain V Vs @ TSemi # rest) = Some (ExprStmt (foldl Shl v vs), rest)"
proof -
  have "take 1 (chain V Vs @ TSemi # rest) \<noteq> [TSemi]"
    using primary_head [OF assms(1)] by (auto simp: chain_def)
  with parse_cond_chain [OF assms, of TSemi rest] show ?thesis
    by (simp add: parse_stmt_unguarded expect_def)
qed

lemma parse_stmts_chain:
  assumes "primary V v" "list_all2 primary Vs vs"
  shows "parse_stmts (chain V Vs @ TSemi # rest) =
           (case parse_stmts rest of
              None \<Rightarrow> None
            | Some cs \<Rightarrow> Some (ExprStmt (foldl Shl v vs) # cs))"
  by (subst parse_stmts.simps) (simp add: parse_stmt_chain [OF assms])

lemma typeof_chain:
  "typeof e = Some TyStream \<Longrightarrow> list_all streamable_expr vs \<Longrightarrow>
   typeof (foldl Shl e vs) = Some TyStream"
  by (induction vs arbitrary: e) (auto simp: streamable_expr_def split: option.splits)

lemma streamable_expr_eval:
  assumes "streamable_expr v"
  shows "\<exists>x s' bytes. eval \<phi> v s = Inr (x, s') \<and> inserted x = Some bytes"
proof -
  from assms obtain t where t: "typeof v = Some t" "streamable t"
    by (auto simp: streamable_expr_def split: option.splits)
  from typeof_eval [OF t(1), of \<phi> s] obtain x s' where "eval \<phi> v s = Inr (x, s')" "val_ty x = t"
    by auto
  with t(2) streamable_inserted [of x] show ?thesis by auto
qed

lemma eval_chain:
  "eval \<phi> e s = Inr (VStream, s0) \<Longrightarrow> list_all streamable_expr vs \<Longrightarrow>
   eval \<phi> (foldl Shl e vs) s =
     (case insert_each \<phi> vs s0 of Inl f \<Rightarrow> Inl f | Inr s' \<Rightarrow> Inr (VStream, s'))"
proof (induction vs arbitrary: e s0)
  case Nil
  then show ?case by simp
next
  case (Cons v vs)
  from Cons.prems(2) have "streamable_expr v" by simp
  from streamable_expr_eval [OF this, of \<phi> s0] obtain x s' bytes
    where v: "eval \<phi> v s0 = Inr (x, s')" "inserted x = Some bytes" by auto
  with Cons.prems(1) have "eval \<phi> (Shl e v) s = Inr (VStream, s'\<lparr>out := out s' @ bytes\<rparr>)"
    by simp
  from Cons.IH [OF this] Cons.prems(2) v show ?case by simp
qed

lemma insert_each_total:
  "list_all streamable_expr vs \<Longrightarrow> \<exists>s'. insert_each \<phi> vs s = Inr s'"
proof (induction vs arbitrary: s)
  case Nil
  then show ?case by simp
next
  case (Cons v vs)
  from Cons.prems have "streamable_expr v" by simp
  from streamable_expr_eval [OF this, of \<phi> s] obtain x s' bytes
    where "eval \<phi> v s = Inr (x, s')" "inserted x = Some bytes" by auto
  with Cons show ?case by simp
qed

lemma exec_chain:
  assumes "list_all streamable_expr vs"
  shows "exec \<phi> (ExprStmt (foldl Shl Cout vs)) s = insert_each \<phi> vs s"
  using eval_chain [of \<phi> Cout s s vs, OF _ assms]
  by (simp split: sum.splits)

lemma parse_consumes_argument:
  "(\<forall>e r. parse_primary ts = Some (e, r) \<longrightarrow>
      (\<exists>p. ts = p @ r \<and> (\<forall>d zs. one_argument d (p @ zs) = one_argument d zs))) \<and>
   (\<forall>e0 e r. parse_shift_rest e0 ts = Some (e, r) \<longrightarrow>
      (\<exists>p. ts = p @ r \<and> (\<forall>d zs. one_argument d (p @ zs) = one_argument d zs))) \<and>
   (\<forall>e r. parse_shift ts = Some (e, r) \<longrightarrow>
      (\<exists>p. ts = p @ r \<and> (\<forall>d zs. one_argument d (p @ zs) = one_argument d zs))) \<and>
   (\<forall>e r. parse_cond ts = Some (e, r) \<longrightarrow>
      (\<exists>p. ts = p @ r \<and> (\<forall>d zs. one_argument d (p @ zs) = one_argument d zs)))"
proof (induction "length ts" arbitrary: ts rule: less_induct)
  case less
  let ?ok = "\<lambda>ts r. \<exists>p. ts = p @ r \<and> (\<forall>d zs. one_argument d (p @ zs) = one_argument d zs)"
  have join: "?ok ts r" if "?ok ts m" "?ok m r" for ts m r :: "token list"
  proof -
    from that obtain p q where "ts = p @ m" "m = q @ r"
      and "\<forall>d zs. one_argument d (p @ zs) = one_argument d zs"
      and "\<forall>d zs. one_argument d (q @ zs) = one_argument d zs"
      by blast
    then have "ts = (p @ q) @ r \<and> (\<forall>d zs. one_argument d ((p @ q) @ zs) = one_argument d zs)"
      by simp
    then show ?thesis by blast
  qed
  have skip: "?ok (t # r) r" if "t \<noteq> TLParen" "t \<noteq> TRParen" "t \<noteq> TComma" for t r
  proof -
    from that have "\<forall>d zs. one_argument d ([t] @ zs) = one_argument d zs"
      by (cases t) auto
    then have "t # r = [t] @ r \<and> (\<forall>d zs. one_argument d ([t] @ zs) = one_argument d zs)"
      by simp
    then show ?thesis by blast
  qed
  have P: "?ok ts r" if "parse_primary ts = Some (e, r)" for e r
  proof -
    from that consider
      (lit) t where "ts = t # r" "t \<noteq> TLParen" "t \<noteq> TRParen" "t \<noteq> TComma"
      | (cout) "ts = TIdent ''std'' # TScope # TIdent ''cout'' # r"
      | (call) f where "ts = TIdent f # TLParen # TRParen # r"
      | (paren) ts' where "ts = TLParen # ts'" "parse_cond ts' = Some (e, TRParen # r)"
      by (auto simp: primary_iff [of ts])
    then show ?thesis
    proof cases
      case lit
      then show ?thesis using skip by simp
    next
      case cout
      have "ts = [TIdent ''std'', TScope, TIdent ''cout''] @ r \<and>
        (\<forall>d zs. one_argument d ([TIdent ''std'', TScope, TIdent ''cout''] @ zs) = one_argument d zs)"
        using cout by simp
      then show ?thesis by blast
    next
      case (call f)
      have "ts = [TIdent f, TLParen, TRParen] @ r \<and>
        (\<forall>d zs. one_argument d ([TIdent f, TLParen, TRParen] @ zs) = one_argument d zs)"
        using call by simp
      then show ?thesis by blast
    next
      case paren
      then have "length ts' < length ts" by simp
      from less [OF this] paren(2) obtain p where p: "ts' = p @ TRParen # r"
        "\<forall>d zs. one_argument d (p @ zs) = one_argument d zs"
        by blast
      have "ts = (TLParen # p @ [TRParen]) @ r \<and>
        (\<forall>d zs. one_argument d ((TLParen # p @ [TRParen]) @ zs) = one_argument d zs)"
        using paren(1) p by simp
      then show ?thesis by blast
    qed
  qed
  have nil: "?ok ts ts"
  proof -
    have "ts = [] @ ts \<and> (\<forall>d zs. one_argument d ([] @ zs) = one_argument d zs)" by simp
    then show ?thesis by blast
  qed
  have Q: "?ok ts r" if "parse_shift_rest e0 ts = Some (e, r)" for e0 e r
  proof -
    from that consider
      (more) ts' e' r' where "ts = TShl # ts'" "parse_primary ts' = Some (e', r')"
        "parse_shift_rest (Shl e0 e') r' = Some (e, r)"
      | (stop) "r = ts"
      by (auto simp: shift_rest_iff [of e0 ts])
    then show ?thesis
    proof cases
      case more
      then have l: "length ts' < length ts" by simp
      from more(2) l have l': "length r' < length ts" by (auto dest: parse_primary_shorter)
      from less [OF l] more(2) have a: "?ok ts' r'" by blast
      from less [OF l'] more(3) have b: "?ok r' r" by blast
      have "?ok ts ts'" using more(1) skip [of TShl ts'] by simp
      from join [OF this join [OF a b]] show ?thesis .
    next
      case stop
      with nil show ?thesis by simp
    qed
  qed
  have R: "?ok ts r" if "parse_shift ts = Some (e, r)" for e r
  proof -
    from that obtain e' r' where a: "parse_primary ts = Some (e', r')"
      and b: "parse_shift_rest e' r' = Some (e, r)"
      by (auto simp: shift_iff [of ts])
    from a have "length r' < length ts" by (rule parse_primary_shorter)
    from less [OF this] b have "?ok r' r" by blast
    from join [OF P [OF a] this] show ?thesis .
  qed
  have S: "?ok ts r" if "parse_cond ts = Some (e, r)" for e r
  proof -
    from that consider
      (ternary) c ts' a ts'' b where "parse_shift ts = Some (c, TQuest # ts')"
        "parse_cond ts' = Some (a, TColon # ts'')" "parse_cond ts'' = Some (b, r)"
      | (plain) "parse_shift ts = Some (e, r)"
      by (auto simp: cond_iff [of ts])
    then show ?thesis
    proof cases
      case ternary
      from ternary(1) have l1: "length ts' < length ts" by (auto dest: parse_shift_shorter)
      from ternary(2) l1 have l2: "length ts'' < length ts" by (auto dest: parse_cond_shorter)
      from less [OF l1] ternary(2) have a: "?ok ts' (TColon # ts'')" by blast
      from less [OF l2] ternary(3) have b: "?ok ts'' r" by blast
      have q: "?ok (TQuest # ts') ts'" using skip [of TQuest ts'] by simp
      have c: "?ok (TColon # ts'') ts''" using skip [of TColon ts''] by simp
      from join [OF R [OF ternary(1)] join [OF q join [OF a join [OF c b]]]] show ?thesis .
    next
      case plain
      then show ?thesis by (rule R)
    qed
  qed
  from P Q R S show ?case by blast
qed

lemma primary_one_argument:
  assumes "primary V v"
  shows "one_argument d (V @ zs) = one_argument d zs"
  using parse_consumes_argument [of V] assms by (auto simp: primary_def)

lemma chain_one_argument:
  "primary V v \<Longrightarrow> list_all2 primary Vs vs \<Longrightarrow> one_argument 0 (chain V Vs)"
proof -
  assume V: "primary V v" and Vs: "list_all2 primary Vs vs"
  from Vs have "one_argument 0 (concat (map ((#) TShl) Vs))"
    by (induction Vs vs rule: list_all2_induct) (auto simp: primary_one_argument)
  with V show ?thesis by (simp add: chain_def primary_one_argument)
qed

section \<open>Running an invocation\<close>

lemma expand_emit_enabled:
  "enabled M \<Longrightarrow> one_argument 0 E \<Longrightarrow>
   expand_text M (emit E) = Inr (direct E @ [TSemi])"
  using DBG_enabled_expands [of M E] by (simp add: emit_def DBG_def)

lemma expand_emit_disabled:
  "disabled M \<Longrightarrow> one_argument 0 E \<Longrightarrow>
   expand_text M (emit E) = Inr [TSemi]"
  using DBG_disabled_expands [of M E] by (simp add: emit_def DBG_def)

lemma emit_is_direct:
  "enabled M \<Longrightarrow> one_argument 0 E \<Longrightarrow>
   build_and_run M (emit E) \<phi> s = build_and_run M [Plain (direct E @ [TSemi])] \<phi> s"
  by (simp add: build_and_run_def expand_emit_enabled)

lemma direct_of_chain: "direct (chain V Vs) = chain cout (V # Vs)"
  by (simp add: direct_def chain_def cout_def)

lemma compile_chain:
  assumes "primary V v" "list_all2 primary Vs vs" "list_all streamable_expr (v # vs)"
  shows "compile (direct (chain V Vs) @ [TSemi]) = Inr [ExprStmt (foldl Shl Cout (v # vs))]"
proof -
  have "list_all2 primary (V # Vs) (v # vs)" using assms by simp
  from parse_stmts_chain [OF primary_cout this, of "[]"]
  have "parse_stmts (direct (chain V Vs) @ [TSemi]) = Some [ExprStmt (foldl Shl Cout (v # vs))]"
    by (simp add: direct_of_chain parse_stmts_Nil)
  moreover have "typeof (foldl Shl Cout (v # vs)) = Some TyStream"
    using typeof_chain [of Cout "v # vs"] assms(3) by simp
  ultimately show ?thesis by (simp add: compile_def)
qed

lemma build_emit_chain:
  assumes "enabled M" "primary V v" "list_all2 primary Vs vs"
    "list_all streamable_expr (v # vs)"
  shows "build_and_run M (emit (chain V Vs)) \<phi> s = insert_each \<phi> (v # vs) s"
proof -
  have "one_argument 0 (chain V Vs)" using assms(2,3) by (rule chain_one_argument)
  from expand_emit_enabled [OF assms(1) this] compile_chain [OF assms(2,3,4)]
    exec_chain [OF assms(4), of \<phi> s]
  show ?thesis by (simp add: build_and_run_def split: sum.splits)
qed

lemma chain_Nil: "chain V [] = V"
  by (simp add: chain_def)

lemma primary_is_argument: "primary V v \<Longrightarrow> one_argument 0 V"
  using primary_one_argument [of V v 0 "[]"] by simp

lemma build_emit_value:
  assumes "enabled M" "primary V v" "streamable_expr v"
  shows "build_and_run M (emit V) \<phi> s = insert_each \<phi> [v] s"
  using build_emit_chain [OF assms(1,2), of "[]" "[]" \<phi> s] assms(3) by (simp add: chain_Nil)

lemma insert_one:
  assumes "streamable_expr v"
  shows "\<exists>x bytes s'. eval \<phi> v s = Inr (x, s') \<and> inserted x = Some bytes \<and>
           insert_each \<phi> [v] s = Inr (s'\<lparr>out := out s' @ bytes\<rparr>)"
  using streamable_expr_eval [OF assms, of \<phi> s] by auto

lemma show_int_42: "show_int 42 = ''42''"
  by (simp add: show_int_def digits.simps [of 42] digits.simps [of 4])

lemma primary_string: "primary [TStr x] (StrE x)"
  by (simp add: primary_def primary_iff)

lemma primary_int: "primary [TInt n] (IntE n)"
  by (simp add: primary_def primary_iff)

lemma primary_call: "primary [TIdent f, TLParen, TRParen] (Call f)"
  by (simp add: primary_def primary_iff)

lemma primary_var: "primary [TIdent x] (Var x)"
  by (simp add: primary_def primary_iff)

lemma streamable_atoms [simp]:
  "streamable_expr (StrE x)" "streamable_expr (IntE n)" "streamable_expr (Var y)"
  "streamable_expr (Call f)" "\<not> streamable_expr Cout"
  by (simp_all add: streamable_expr_def)

lemma build_emit_string:
  "enabled M \<Longrightarrow> build_and_run M (emit [TStr x]) \<phi> s = Inr (s\<lparr>out := out s @ x\<rparr>)"
  by (simp add: build_emit_value [OF _ primary_string])

lemma include_enabled:
  "include_debug_h env =
     Inr (define_macro ''DBG'' DBG_enabled
           (define_macro ''AMQP_DEBUG'' (ObjectLike [TInt 1]) (before_include env))) \<and>
   enabled (macros (define_macro ''DBG'' DBG_enabled
           (define_macro ''AMQP_DEBUG'' (ObjectLike [TInt 1]) (before_include env))))"
  by (simp add: include_debug_h_result enabled_def macros_define_macro)

lemma translation_unit_string:
  "translation_unit env (emit [TStr x]) \<phi> s = Inr (s\<lparr>out := out s @ x\<rparr>)"
  using include_enabled [of env]
  by (simp add: translation_unit_def after_header_def build_emit_string)

lemma expand_emit_twice:
  "enabled M \<Longrightarrow> one_argument 0 E \<Longrightarrow>
   expand_text M (emit E @ emit E) = Inr (direct E @ TSemi # direct E @ [TSemi])"
  using DBG_enabled_expands [of M E] by (simp add: emit_def DBG_def)

lemma compile_value:
  assumes "primary V v" "streamable_expr v"
  shows "compile (direct V @ [TSemi]) = Inr [ExprStmt (Shl Cout v)]"
  using compile_chain [OF assms(1), of "[]" "[]"] assms(2) by (simp add: chain_Nil)

lemma compile_value_twice:
  assumes "primary V v" "streamable_expr v"
  shows "compile (direct V @ TSemi # direct V @ [TSemi]) =
           Inr [ExprStmt (Shl Cout v), ExprStmt (Shl Cout v)]"
proof -
  have p: "list_all2 primary [V] [v]" using assms(1) by simp
  have d: "direct V = chain cout [V]" by (rule direct_chain)
  from parse_stmts_chain [OF primary_cout p, of "[]"]
  have one: "parse_stmts (direct V @ [TSemi]) = Some [ExprStmt (Shl Cout v)]"
    by (simp add: d parse_stmts_Nil)
  from parse_stmts_chain [OF primary_cout p, of "direct V @ [TSemi]"] one
  have "parse_stmts (direct V @ TSemi # direct V @ [TSemi]) =
      Some [ExprStmt (Shl Cout v), ExprStmt (Shl Cout v)]"
    by (simp add: d)
  moreover have "typeof (Shl Cout v) = Some TyStream"
    using assms(2) by (auto simp: streamable_expr_def split: option.splits)
  ultimately show ?thesis by (simp add: compile_def)
qed

lemma exec_value:
  "streamable_expr v \<Longrightarrow> exec \<phi> (ExprStmt (Shl Cout v)) s = insert_each \<phi> [v] s"
  using exec_chain [of "[v]" \<phi> s] by simp

lemma build_emit_twice:
  assumes "enabled M" "primary V v" "streamable_expr v"
  shows "build_and_run M (emit V @ emit V) \<phi> s =
           (case insert_each \<phi> [v] s of Inl f \<Rightarrow> Inl f | Inr s1 \<Rightarrow> insert_each \<phi> [v] s1)"
proof -
  have e: "exec \<phi> (ExprStmt (Shl Cout v)) s' = insert_each \<phi> [v] s'" for s'
    using assms(3) by (rule exec_value)
  have "run \<phi> [ExprStmt (Shl Cout v), ExprStmt (Shl Cout v)] s =
      (case insert_each \<phi> [v] s of Inl f \<Rightarrow> Inl f | Inr s1 \<Rightarrow> insert_each \<phi> [v] s1)"
    by (simp add: e split: sum.splits del: exec.simps insert_each.simps)
  with expand_emit_twice [OF assms(1) primary_is_argument [OF assms(2)]]
    compile_value_twice [OF assms(2,3)]
  show ?thesis by (simp add: build_and_run_def del: exec.simps insert_each.simps run.simps)
qed

lemma ill_typed_typeof: "ill_typed e \<Longrightarrow> typeof e = None"
  by (induction e) (auto split: option.splits ty.splits)

lemma compile_not_streamable:
  assumes "primary V v" "ill_typed v \<or> typeof v = Some TyStream"
  shows "compile (direct V @ [TSemi]) = Inl TypeError"
proof -
  have p: "list_all2 primary [V] [v]" using assms(1) by simp
  from parse_stmts_chain [OF primary_cout p, of "[]"]
  have "parse_stmts (direct V @ [TSemi]) = Some [ExprStmt (Shl Cout v)]"
    by (simp add: direct_chain parse_stmts_Nil)
  moreover have "ill_typed (Shl Cout v)"
    using assms(2) by auto
  moreover from this have "typeof (Shl Cout v) = None"
    by (rule ill_typed_typeof)
  ultimately show ?thesis
    by (simp add: compile_def del: typeof.simps ill_typed.simps)
qed

lemma show_int_1: "show_int 1 = ''1''"
  by (simp add: show_int_def digits.simps [of "Suc 0"])

lemma one_argument_example: "one_argument 0 conditional_example"
  by (simp add: conditional_example_def)

lemma compile_conditional_example:
  "compile (direct conditional_example @ [TSemi]) =
     Inr [ExprStmt (Cond (Shl Cout (IntE 1)) (StrE ''a'') (StrE ''b''))]"
proof -
  have "parse_shift (direct conditional_example @ [TSemi]) =
      Some (Shl Cout (IntE 1), [TQuest, TStr ''a'', TColon, TStr ''b'', TSemi])"
    using parse_shift_chain [OF primary_cout, of "[[TInt 1]]" "[IntE 1]" TQuest
        "[TStr ''a'', TColon, TStr ''b'', TSemi]"] primary_int [of 1]
    by (simp add: direct_def conditional_example_def chain_def cout_def)
  moreover have "parse_cond [TStr ''a'', TColon, TStr ''b'', TSemi] =
      Some (StrE ''a'', [TColon, TStr ''b'', TSemi])"
    using parse_cond_chain [OF primary_string, of "[]" "[]" TColon "''a''" "[TStr ''b'', TSemi]"]
    by (simp add: chain_def)
  moreover have "parse_cond [TStr ''b'', TSemi] = Some (StrE ''b'', [TSemi])"
    using parse_cond_chain [OF primary_string, of "[]" "[]" TSemi "''b''" "[]"]
    by (simp add: chain_def)
  ultimately have "parse_cond (direct conditional_example @ [TSemi]) =
      Some (Cond (Shl Cout (IntE 1)) (StrE ''a'') (StrE ''b''), [TSemi])"
    by (simp add: cond_iff [of "direct conditional_example @ [TSemi]"])
  moreover have "take 1 (direct conditional_example @ [TSemi]) \<noteq> [TSemi]"
    by (simp add: direct_def)
  ultimately have "parse_stmt (direct conditional_example @ [TSemi]) =
      Some (ExprStmt (Cond (Shl Cout (IntE 1)) (StrE ''a'') (StrE ''b'')), [])"
    by (simp add: parse_stmt_unguarded expect_def)
  moreover have "direct conditional_example @ [TSemi] \<noteq> []"
    by (simp add: direct_def)
  ultimately have "parse_stmts (direct conditional_example @ [TSemi]) =
      Some [ExprStmt (Cond (Shl Cout (IntE 1)) (StrE ''a'') (StrE ''b''))]"
    by (subst parse_stmts.simps) (simp add: parse_stmts_Nil)
  then show ?thesis by (simp add: compile_def)
qed

lemma primary_parenthesised_example:
  "primary (parenthesise conditional_example) (Cond (IntE 1) (StrE ''a'') (StrE ''b''))"
proof -
  have "parse_shift [TInt 1, TQuest, TStr ''a'', TColon, TStr ''b'', TRParen] =
      Some (IntE 1, [TQuest, TStr ''a'', TColon, TStr ''b'', TRParen])"
    using parse_shift_chain [OF primary_int, of "[]" "[]" TQuest 1 "[TStr ''a'', TColon, TStr ''b'', TRParen]"]
    by (simp add: chain_def)
  moreover have "parse_cond [TStr ''a'', TColon, TStr ''b'', TRParen] =
      Some (StrE ''a'', [TColon, TStr ''b'', TRParen])"
    using parse_cond_chain [OF primary_string, of "[]" "[]" TColon "''a''" "[TStr ''b'', TRParen]"]
    by (simp add: chain_def)
  moreover have "parse_cond [TStr ''b'', TRParen] = Some (StrE ''b'', [TRParen])"
    using parse_cond_chain [OF primary_string, of "[]" "[]" TRParen "''b''" "[]"]
    by (simp add: chain_def)
  ultimately have "parse_cond [TInt 1, TQuest, TStr ''a'', TColon, TStr ''b'', TRParen] =
      Some (Cond (IntE 1) (StrE ''a'') (StrE ''b''), [TRParen])"
    by (simp add: cond_iff [of "TInt _ # _"])
  then show ?thesis
    by (simp add: primary_def parenthesise_def conditional_example_def primary_iff [of "TLParen # _"])
qed

lemma streamable_example: "streamable_expr (Cond (IntE 1) (StrE ''a'') (StrE ''b''))"
  by (simp add: streamable_expr_def)

lemma parse_cond_no_primary: "parse_primary ts = None \<Longrightarrow> parse_cond ts = None"
proof -
  assume n: "parse_primary ts = None"
  then have "parse_shift ts = None"
    by (simp add: parse_shift.simps within_def)
  then show ?thesis
    by (simp add: parse_cond.simps within_def)
qed

lemma parse_primary_operator:
  "t = TShl \<or> t = TQuest \<or> t = TColon \<or> t = TRParen \<or> t = TSemi \<Longrightarrow>
   parse_primary (t # r) = None"
  by (auto simp: parse_primary.simps)

lemma parse_primary_empty_parens: "parse_primary (TLParen # TRParen # r) = None"
proof -
  have "parse_cond (TRParen # r) = None"
    by (simp add: parse_cond_no_primary parse_primary_operator)
  then show ?thesis
    by (simp add: parse_primary.simps expect_def)
qed

lemma parse_stmts_no_primary:
  assumes "parse_primary (t # r) = None" "t \<noteq> TSemi"
  shows "compile (t # r) = Inl SyntaxError"
proof -
  from assms(1) have "parse_cond (t # r) = None" by (rule parse_cond_no_primary)
  with assms(2) have "parse_stmt (t # r) = None"
    by (simp add: parse_stmt_unguarded expect_def)
  then have "parse_stmts (t # r) = None"
    by (subst parse_stmts.simps) simp
  then show ?thesis by (simp add: compile_def)
qed

lemma parse_cond_ternary:
  assumes "parse_shift ts = Some (c, TQuest # ts1)" "parse_cond ts1 = Some (a, TColon # ts2)"
    "parse_cond ts2 = Some (b, r)"
  shows "parse_cond ts = Some (Cond c a b, r)"
  using assms by (simp add: cond_iff [of ts])

lemma parse_cond_missing_arm:
  assumes "parse_shift ts = Some (c, TQuest # TColon # r)"
  shows "parse_cond ts = None"
proof -
  have "parse_cond (TColon # r) = None"
    by (simp add: parse_cond_no_primary parse_primary_operator)
  with assms have "parse_cond ts \<noteq> Some (e, r')" for e r'
    by (auto simp: cond_iff [of ts])
  then show ?thesis by (cases "parse_cond ts") auto
qed

lemma compile_stmt:
  assumes "parse_cond (t # ts @ [TSemi]) = Some (e, [TSemi])" "t \<noteq> TSemi"
  shows "compile (t # ts @ [TSemi]) =
           (case typeof e of
              None \<Rightarrow> if ill_typed e then Inl TypeError else Inl OutsideFragment
            | Some ty \<Rightarrow> Inr [ExprStmt e])"
proof -
  from assms have "parse_stmt (t # ts @ [TSemi]) = Some (ExprStmt e, [])"
    by (simp add: parse_stmt_unguarded expect_def)
  then have "parse_stmts (t # ts @ [TSemi]) = Some [ExprStmt e]"
    by (subst parse_stmts.simps) (simp add: parse_stmts_Nil)
  then show ?thesis by (simp add: compile_def split: option.splits)
qed

lemma expand_contexts_disabled:
  assumes "disabled M" "one_argument 0 V"
  shows "expand_text M (as_left_operand V W) = Inr (TShl # W @ [TSemi])"
    and "expand_text M (as_condition V A B) = Inr (TQuest # A @ TColon # B @ [TSemi])"
    and "expand_text M (parenthesised V) = Inr [TLParen, TRParen, TSemi]"
    and "one_argument 0 W \<Longrightarrow> expand_text M (as_arms C V W) = Inr (C @ [TQuest, TColon, TSemi])"
  using DBG_disabled_expands [OF assms] DBG_disabled_expands [OF assms(1), of W]
  by (simp_all add: as_left_operand_def as_condition_def parenthesised_def as_arms_def DBG_def)

lemma expand_contexts_enabled:
  assumes "enabled M" "one_argument 0 V"
  shows "expand_text M (as_left_operand V W) = Inr (direct V @ TShl # W @ [TSemi])"
    and "expand_text M (as_condition V A B) = Inr (direct V @ TQuest # A @ TColon # B @ [TSemi])"
    and "expand_text M (parenthesised V) = Inr (TLParen # direct V @ [TRParen, TSemi])"
    and "one_argument 0 W \<Longrightarrow>
         expand_text M (as_arms C V W) = Inr (C @ TQuest # direct V @ TColon # direct W @ [TSemi])"
  using DBG_enabled_expands [OF assms] DBG_enabled_expands [OF assms(1), of W]
  by (simp_all add: as_left_operand_def as_condition_def parenthesised_def as_arms_def DBG_def)

lemma contexts_disabled:
  assumes "disabled M" "one_argument 0 V"
  shows "build_and_run M (as_left_operand V W) \<phi> s = Inl SyntaxError"
    and "build_and_run M (as_condition V A B) \<phi> s = Inl SyntaxError"
    and "build_and_run M (parenthesised V) \<phi> s = Inl SyntaxError"
  using expand_contexts_disabled [OF assms]
  by (simp_all add: build_and_run_def parse_stmts_no_primary parse_primary_operator
      parse_primary_empty_parens)

lemma arms_disabled:
  assumes "disabled M" "one_argument 0 V" "one_argument 0 W" "primary C c"
  shows "build_and_run M (as_arms C V W) \<phi> s = Inl SyntaxError"
proof -
  from primary_head [OF assms(4)] obtain t ts where C: "C = t # ts" "t \<noteq> TSemi" by auto
  from parse_shift_chain [OF assms(4), of "[]" "[]" TQuest "[TColon, TSemi]"]
  have "parse_shift (C @ [TQuest, TColon, TSemi]) = Some (c, TQuest # TColon # [TSemi])"
    by (simp add: chain_def)
  then have "parse_cond (C @ [TQuest, TColon, TSemi]) = None"
    by (rule parse_cond_missing_arm)
  with C have "parse_stmt (C @ [TQuest, TColon, TSemi]) = None"
    by (simp add: parse_stmt_unguarded expect_def)
  with C have "parse_stmts (C @ [TQuest, TColon, TSemi]) = None"
    by (subst parse_stmts.simps) simp
  with expand_contexts_disabled(4) [OF assms(1,2,3), of C] show ?thesis
    by (simp add: build_and_run_def compile_def)
qed

lemma left_operand_enabled:
  assumes "enabled M" "primary V v" "streamable_expr v" "primary W w" "streamable_expr w"
  shows "build_and_run M (as_left_operand V W) \<phi> s = insert_each \<phi> [v, w] s"
proof -
  have "expand_text M (as_left_operand V W) = expand_text M (emit (chain V [W]))"
    using expand_contexts_enabled(1) [OF assms(1) primary_is_argument [OF assms(2)], of W]
      expand_emit_enabled [OF assms(1) chain_one_argument [OF assms(2), of "[W]" "[w]"]] assms(4)
    by (simp add: chain_def direct_def)
  then have "build_and_run M (as_left_operand V W) \<phi> s = build_and_run M (emit (chain V [W])) \<phi> s"
    by (simp add: build_and_run_def)
  also have "\<dots> = insert_each \<phi> [v, w] s"
    using assms by (intro build_emit_chain) simp_all
  finally show ?thesis .
qed

lemma typeof_insertion:
  "streamable_expr v \<Longrightarrow> typeof (Shl Cout v) = Some TyStream"
  by (auto simp: streamable_expr_def split: option.splits)

lemma condition_enabled:
  assumes "enabled M" "primary V v" "streamable_expr v" "primary A a" "primary B b"
    "typeof a = Some t" "typeof b = Some t"
  shows "\<exists>s1 s2. insert_each \<phi> [v] s = Inr s1 \<and> exec \<phi> (ExprStmt a) s1 = Inr s2
           \<and> build_and_run M (as_condition V A B) \<phi> s = Inr s2"
proof -
  let ?e = "Cond (Shl Cout v) a b"
  have "parse_shift (direct V @ TQuest # A @ TColon # B @ [TSemi]) =
      Some (Shl Cout v, TQuest # A @ TColon # B @ [TSemi])"
    using parse_shift_chain [OF primary_cout, of "[V]" "[v]" TQuest "A @ TColon # B @ [TSemi]"]
      assms(2) by (simp add: direct_chain)
  moreover have "parse_cond (A @ TColon # B @ [TSemi]) = Some (a, TColon # B @ [TSemi])"
    using parse_cond_chain [OF assms(4), of "[]" "[]" TColon "B @ [TSemi]"]
    by (simp add: chain_def)
  moreover have "parse_cond (B @ [TSemi]) = Some (b, [TSemi])"
    using parse_cond_chain [OF assms(5), of "[]" "[]" TSemi "[]"]
    by (simp add: chain_def)
  ultimately have "parse_cond (direct V @ TQuest # A @ TColon # B @ [TSemi]) = Some (?e, [TSemi])"
    by (rule parse_cond_ternary)
  then have "parse_cond (TIdent ''std'' # (TScope # TIdent ''cout'' # TShl # V @ TQuest # A @ TColon # B)
      @ [TSemi]) = Some (?e, [TSemi])"
    by (simp add: direct_def)
  from compile_stmt [OF this]
  have "compile (direct V @ TQuest # A @ TColon # B @ [TSemi]) =
      (case typeof ?e of
         None \<Rightarrow> if ill_typed ?e then Inl TypeError else Inl OutsideFragment
       | Some ty \<Rightarrow> Inr [ExprStmt ?e])"
    by (simp add: direct_def)
  moreover have "typeof ?e = Some t"
    using assms(6,7) typeof_insertion [OF assms(3)] by simp
  ultimately have "compile (direct V @ TQuest # A @ TColon # B @ [TSemi]) = Inr [ExprStmt ?e]"
    by simp
  with expand_contexts_enabled(2) [OF assms(1) primary_is_argument [OF assms(2)], of A B]
  have b: "build_and_run M (as_condition V A B) \<phi> s = exec \<phi> (ExprStmt ?e) s"
    by (simp add: build_and_run_def del: exec.simps split: sum.splits)
  from insert_each_total [of "[v]" \<phi> s] assms(3) obtain s1
    where s1: "insert_each \<phi> [v] s = Inr s1" by auto
  with eval_chain [of \<phi> Cout s s "[v]"] assms(3)
  have c: "eval \<phi> (Shl Cout v) s = Inr (VStream, s1)"
    by (simp del: insert_each.simps eval.simps(6))
  from typeof_eval [OF assms(6), of \<phi> s1] obtain x s2 where a: "eval \<phi> a s1 = Inr (x, s2)"
    by auto
  from c a have "exec \<phi> (ExprStmt ?e) s = Inr s2" "exec \<phi> (ExprStmt a) s1 = Inr s2"
    by (simp_all del: eval.simps(6))
  with b s1 show ?thesis by simp
qed

lemma primary_parenthesised:
  assumes "primary V v"
  shows "primary (TLParen # direct V @ [TRParen]) (Shl Cout v)"
proof -
  have "parse_cond (direct V @ [TRParen]) = Some (Shl Cout v, [TRParen])"
    using parse_cond_chain [OF primary_cout, of "[V]" "[v]" TRParen "[]"] assms
    by (simp add: direct_chain)
  then show ?thesis
    by (simp add: primary_def primary_iff [of "TLParen # _"])
qed

lemma parenthesised_enabled:
  assumes "enabled M" "primary V v" "streamable_expr v"
  shows "build_and_run M (parenthesised V) \<phi> s = insert_each \<phi> [v] s"
proof -
  let ?P = "TLParen # direct V @ [TRParen]"
  from parse_stmts_chain [OF primary_parenthesised [OF assms(2)], of "[]" "[]" "[]"]
  have "parse_stmts (?P @ [TSemi]) = Some [ExprStmt (Shl Cout v)]"
    by (simp add: chain_def parse_stmts_Nil)
  then have "compile (TLParen # direct V @ [TRParen, TSemi]) = Inr [ExprStmt (Shl Cout v)]"
    using typeof_insertion [OF assms(3)] by (simp add: compile_def)
  with expand_contexts_enabled(3) [OF assms(1) primary_is_argument [OF assms(2)]]
    exec_value [OF assms(3), of \<phi> s]
  show ?thesis
    by (simp add: build_and_run_def del: exec.simps insert_each.simps split: sum.splits)
qed

lemma arms_enabled:
  assumes "enabled M" "primary V v" "streamable_expr v" "primary W w" "streamable_expr w"
    "primary C c" "typeof c = Some tc"
  shows "\<exists>x s1 s2. eval \<phi> c s = Inr (x, s1)
           \<and> insert_each \<phi> [if truthy x then v else w] s1 = Inr s2
           \<and> build_and_run M (as_arms C V W) \<phi> s = Inr s2"
proof -
  let ?e = "Cond c (Shl Cout v) (Shl Cout w)"
  from primary_head [OF assms(6)] obtain t ts where C: "C = t # ts" "t \<noteq> TSemi" by auto
  have "parse_shift (C @ TQuest # direct V @ TColon # direct W @ [TSemi]) =
      Some (c, TQuest # direct V @ TColon # direct W @ [TSemi])"
    using parse_shift_chain [OF assms(6), of "[]" "[]" TQuest "direct V @ TColon # direct W @ [TSemi]"]
    by (simp add: chain_def)
  moreover have "parse_cond (direct V @ TColon # direct W @ [TSemi]) =
      Some (Shl Cout v, TColon # direct W @ [TSemi])"
    using parse_cond_chain [OF primary_cout, of "[V]" "[v]" TColon "direct W @ [TSemi]"] assms(2)
    by (simp add: direct_chain)
  moreover have "parse_cond (direct W @ [TSemi]) = Some (Shl Cout w, [TSemi])"
    using parse_cond_chain [OF primary_cout, of "[W]" "[w]" TSemi "[]"] assms(4)
    by (simp add: direct_chain)
  ultimately have "parse_cond (C @ TQuest # direct V @ TColon # direct W @ [TSemi]) =
      Some (?e, [TSemi])"
    by (rule parse_cond_ternary)
  then have "parse_cond (t # (ts @ TQuest # direct V @ TColon # direct W) @ [TSemi]) =
      Some (?e, [TSemi])"
    using C by simp
  from compile_stmt [OF this C(2)]
  have "compile (C @ TQuest # direct V @ TColon # direct W @ [TSemi]) =
      (case typeof ?e of
         None \<Rightarrow> if ill_typed ?e then Inl TypeError else Inl OutsideFragment
       | Some ty \<Rightarrow> Inr [ExprStmt ?e])"
    using C by simp
  moreover have ty: "typeof ?e = Some TyStream"
    using assms(7) typeof_insertion [OF assms(3)] typeof_insertion [OF assms(5)] by simp
  ultimately have "compile (C @ TQuest # direct V @ TColon # direct W @ [TSemi]) =
      Inr [ExprStmt ?e]"
    by simp
  with expand_contexts_enabled(4) [OF assms(1) primary_is_argument [OF assms(2)]
      primary_is_argument [OF assms(4)], of C]
  have b: "build_and_run M (as_arms C V W) \<phi> s = exec \<phi> (ExprStmt ?e) s"
    by (simp add: build_and_run_def del: exec.simps split: sum.splits)
  from typeof_eval [OF assms(7), of \<phi> s] obtain x s1 where c: "eval \<phi> c s = Inr (x, s1)"
    by auto
  let ?u = "if truthy x then v else w"
  have u: "streamable_expr ?u" using assms(3,5) by simp
  from insert_each_total [of "[?u]" \<phi> s1] u obtain s2
    where s2: "insert_each \<phi> [?u] s1 = Inr s2" by auto
  with eval_chain [of \<phi> Cout s1 s1 "[?u]"] u
  have "eval \<phi> (Shl Cout ?u) s1 = Inr (VStream, s2)"
    by (simp del: insert_each.simps eval.simps(6))
  with c have "exec \<phi> (ExprStmt ?e) s = Inr s2"
    by (simp del: eval.simps(6) split: if_splits)
  with b c s2 show ?thesis by simp
qed

section \<open>Exceptions and a stream that has failed\<close>

lemma good_simps [simp]: "good (s\<lparr>out := x\<rparr>) = (good s)\<lparr>out := x\<rparr>"
  "good (s\<lparr>user := u\<rparr>) = (good s)\<lparr>user := u\<rparr>"
  "out (good s) = out s" "user (good s) = user s" "failed (good s) = False"
  by (simp_all add: good_def)

lemma truthy_x_good: "truthy_x v (good s) = truthy v"
  by (cases v) simp_all

lemma eval_x_returning:
  "eval_x (returning \<phi>) e (good s) =
     (case eval \<phi> e s of Inl f \<Rightarrow> Inl f | Inr (v, s') \<Rightarrow> Inr (v, good s'))"
proof (induction e arbitrary: s)
  case (Call f)
  then show ?case by (simp add: returning_def split: prod.splits)
next
  case (Shl a b)
  then show ?case
    by (auto simp: insertion_def split: sum.splits prod.splits val.splits option.splits)
next
  case (Cond c a b)
  then show ?case
    by (auto simp: truthy_x_good split: sum.splits prod.splits)
qed (simp_all add: returning_def)

lemma run_x_returning:
  "run_x (returning \<phi>) p (good s) =
     (case run \<phi> p s of Inl f \<Rightarrow> Inl f | Inr s' \<Rightarrow> Inr (good s'))"
proof (induction p arbitrary: s)
  case Nil
  then show ?case by simp
next
  case (Cons c cs)
  show ?case
  proof (cases c)
    case Empty
    with Cons show ?thesis by simp
  next
    case (ExprStmt e)
    with Cons show ?thesis
      by (simp add: eval_x_returning split: sum.splits prod.splits)
  qed
qed

lemma build_and_run_x_returning:
  "build_and_run_x M text (returning \<phi>) (good s) =
     (case build_and_run M text \<phi> s of Inl f \<Rightarrow> Inl f | Inr s' \<Rightarrow> Inr (good s'))"
  by (simp add: build_and_run_x_def build_and_run_def run_x_returning split: sum.splits)

lemma typeof_eval_x:
  "typeof e = Some t \<Longrightarrow>
   (\<exists>v s'. eval_x \<phi> e s = Inr (v, s') \<and> val_ty v = t) \<or> (\<exists>x. eval_x \<phi> e s = Inl (Raised x))"
proof (induction e arbitrary: t s)
  case (Call f)
  then show ?case by (cases "xcall \<phi> f (user s)") auto
next
  case (Shl a b)
  from Shl.prems obtain tb where ta: "typeof a = Some TyStream" and tb: "typeof b = Some tb"
    and st: "streamable tb" and t: "t = TyStream"
    by (auto split: option.splits ty.splits if_splits)
  from Shl.IH(1) [OF ta, of s] consider
    (ok) s1 where "eval_x \<phi> a s = Inr (VStream, s1)" | (raised) x where "eval_x \<phi> a s = Inl (Raised x)"
    by (auto simp: val_ty_stream)
  then show ?case
  proof cases
    case raised
    then show ?thesis by simp
  next
    case ok
    from Shl.IH(2) [OF tb, of s1] consider
      (ok2) vb s2 where "eval_x \<phi> b s1 = Inr (vb, s2)" "val_ty vb = tb"
      | (raised2) x where "eval_x \<phi> b s1 = Inl (Raised x)"
      by auto
    then show ?thesis
    proof cases
      case raised2
      with ok show ?thesis by simp
    next
      case ok2
      from st ok2(2) obtain bytes where "inserted vb = Some bytes"
        using streamable_inserted [of vb] by auto
      with ok ok2 t show ?thesis by simp
    qed
  qed
next
  case (Cond c a b)
  from Cond.prems obtain tc where tc: "typeof c = Some tc" and ta: "typeof a = Some t"
    and tb: "typeof b = Some t"
    by (auto split: option.splits if_splits)
  from Cond.IH(1) [OF tc, of s] consider
    (ok) vc s1 where "eval_x \<phi> c s = Inr (vc, s1)" | (raised) x where "eval_x \<phi> c s = Inl (Raised x)"
    by auto
  then show ?case
  proof cases
    case raised
    then show ?thesis by simp
  next
    case ok
    with Cond.IH(2) [OF ta, of s1] Cond.IH(3) [OF tb, of s1] show ?thesis
      by auto
  qed
qed auto

lemma stream_x_outcome:
  assumes "streamable_expr v"
  shows "(\<exists>x s' bytes. eval_x \<phi> v s = Inr (x, s') \<and> inserted x = Some bytes
            \<and> stream_x \<phi> v s = Inr (insertion bytes s'))
       \<or> (\<exists>x. eval_x \<phi> v s = Inl (Raised x) \<and> stream_x \<phi> v s = Inl (Raised x))"
proof -
  from assms obtain t where t: "typeof v = Some t" "streamable t"
    by (auto simp: streamable_expr_def split: option.splits)
  from typeof_eval_x [OF t(1), of \<phi> s] t(2) show ?thesis
    using streamable_inserted by (fastforce simp: stream_x_def)
qed

lemma exec_value_x:
  "streamable_expr v \<Longrightarrow> exec_x \<phi> (ExprStmt (Shl Cout v)) s = stream_x \<phi> v s"
  using stream_x_outcome [of v \<phi> s]
  by (auto simp: stream_x_def split: sum.splits prod.splits option.splits)

lemma build_emit_value_x:
  assumes "enabled M" "primary V v" "streamable_expr v"
  shows "build_and_run_x M (emit V) \<phi> s = stream_x \<phi> v s"
  using expand_emit_enabled [OF assms(1) primary_is_argument [OF assms(2)]]
    compile_value [OF assms(2,3)] exec_value_x [OF assms(3), of \<phi> s]
  by (simp add: build_and_run_x_def split: sum.splits del: exec_x.simps)

lemma build_disabled_x:
  "disabled M \<Longrightarrow> one_argument 0 E \<Longrightarrow> build_and_run_x M (emit E) \<phi> s = Inr s"
  using DBG_disabled_expands [of M E]
  by (simp add: build_and_run_x_def emit_def DBG_def compile_def parse_stmts_semi)

lemma build_emit_not_streamable_x:
  assumes "enabled M" "primary V v" "ill_typed v \<or> typeof v = Some TyStream"
  shows "build_and_run_x M (emit V) \<phi> s = Inl TypeError"
  using expand_emit_enabled [OF assms(1) primary_is_argument [OF assms(2)]]
    compile_not_streamable [OF assms(2,3)]
  by (simp add: build_and_run_x_def)

lemma translation_unit_x_enabled:
  "translation_unit_x env text \<phi> s =
     build_and_run_x (macros (define_macro ''DBG'' DBG_enabled
       (define_macro ''AMQP_DEBUG'' (ObjectLike [TInt 1]) (before_include env)))) text \<phi> s"
  using include_enabled [of env] by (simp add: translation_unit_x_def)

lemma argument_disabled:
  assumes "disabled M" "one_argument 0 V"
  shows "expand_text M (as_argument g V) = Inr [TIdent g, TLParen, TRParen, TSemi]"
    and "build_and_run M (as_argument g V) \<phi> s = Inr (s\<lparr>user := snd (call \<phi> g (user s))\<rparr>)"
proof -
  from DBG_disabled_expands [OF assms]
  show e: "expand_text M (as_argument g V) = Inr [TIdent g, TLParen, TRParen, TSemi]"
    by (simp add: as_argument_def DBG_def)
  have "list_all2 primary [] []" by simp
  from parse_stmts_chain [OF primary_call this, of g "[]"]
  have "parse_stmts [TIdent g, TLParen, TRParen, TSemi] = Some [ExprStmt (Call g)]"
    by (simp add: chain_Nil parse_stmts_Nil)
  then have "compile [TIdent g, TLParen, TRParen, TSemi] = Inr [ExprStmt (Call g)]"
    by (simp add: compile_def)
  with e show "build_and_run M (as_argument g V) \<phi> s = Inr (s\<lparr>user := snd (call \<phi> g (user s))\<rparr>)"
    by (simp add: build_and_run_def split: prod.splits)
qed

section \<open>The claims\<close>

text \<open>
  C1. When the flag is undefined or defined as \<open>0\<close> at the conditional, \<^verbatim>\<open>DBG(E)\<close>
  is replaced by no token at all: for every macro argument \<open>E\<close>, whatever its side
  effects, the statement \<^verbatim>\<open>DBG(E);\<close> leaves the state of the consumer unchanged and
  writes no byte; \<open>E\<close> is not evaluated.
\<close>

theorem DBG_disabled_not_evaluated:
  assumes "flag env = None \<or> flag env = Some (ObjectLike [TInt 0])"
    and "one_argument 0 E"
  shows "(\<exists>st. conditional_only env = Inr st \<and> disabled (macros st)
            \<and> DBG (macros st) E = Inr [])
       \<and> after_header (conditional_only env) (emit E) \<phi> s = Inr s"
proof -
  let ?st = "define_macro ''DBG'' DBG_disabled (before_include env)"
  have c: "conditional_only env = Inr ?st"
    using assms(1) conditional_absent [of env] conditional_literal [of env "[TInt 0]" 0]
    by (auto simp: intmax_max_def)
  have d: "disabled (macros ?st)"
    by (simp add: disabled_def macros_define_macro)
  show ?thesis
    using c d assms(2) by (simp add: after_header_def DBG_disabled_expands build_disabled)
qed

theorem DBG_disabled_not_evaluated_witness:
  "(flag no_macros = None \<or> flag no_macros = Some (ObjectLike [TInt 0]))
   \<and> (flag (predefined ''AMQP_DEBUG'' [TInt 0]) = None
        \<or> flag (predefined ''AMQP_DEBUG'' [TInt 0]) = Some (ObjectLike [TInt 0]))
   \<and> one_argument 0 [TIdent ''f'', TLParen, TRParen]
   \<and> after_header (conditional_only no_macros) (emit [TIdent ''f'', TLParen, TRParen])
        logging (start []) = Inr (start [])
   \<and> after_header (conditional_only (predefined ''AMQP_DEBUG'' [TInt 0]))
        (emit [TIdent ''f'', TLParen, TRParen]) logging (start []) = Inr (start [])
   \<and> eval logging (Call ''f'') (start []) = Inr (VInt 0, \<lparr>out = [], user = [''f'']\<rparr>)"
proof -
  have h1: "flag no_macros = None \<or> flag no_macros = Some (ObjectLike [TInt 0])"
    by (simp add: flag_def no_macros_def)
  have h2: "flag (predefined ''AMQP_DEBUG'' [TInt 0]) = None
        \<or> flag (predefined ''AMQP_DEBUG'' [TInt 0]) = Some (ObjectLike [TInt 0])"
    by (simp add: flag_def predefined_def)
  have h3: "one_argument 0 [TIdent ''f'', TLParen, TRParen]"
    by simp
  from DBG_disabled_not_evaluated [OF h1 h3, of logging "start []", THEN conjunct2]
  have a: "after_header (conditional_only no_macros) (emit [TIdent ''f'', TLParen, TRParen])
        logging (start []) = Inr (start [])" .
  from DBG_disabled_not_evaluated [OF h2 h3, of logging "start []", THEN conjunct2]
  have b: "after_header (conditional_only (predefined ''AMQP_DEBUG'' [TInt 0]))
        (emit [TIdent ''f'', TLParen, TRParen]) logging (start []) = Inr (start [])" .
  have c: "eval logging (Call ''f'') (start []) = Inr (VInt 0, \<lparr>out = [], user = [''f'']\<rparr>)"
    by (simp add: logging_def start_def)
  from h1 h2 h3 a b c show ?thesis by simp
qed

text \<open>
  C3. In an enabled build, for every value \<open>V\<close> to stream (a primary expression of a
  streamable type), \<^verbatim>\<open>DBG(V)\<close> is replaced by the tokens \<^verbatim>\<open>std::cout << V\<close> and
  nothing else, so the statement \<^verbatim>\<open>DBG(V);\<close> does what the statement
  \<^verbatim>\<open>std::cout << V;\<close> does: \<open>V\<close> is evaluated once, from the state before the
  statement, and exactly the bytes of its value are appended to the output.
\<close>

theorem DBG_enabled_streams_value:
  assumes "enabled M" and "primary V v" and "streamable_expr v"
  shows "DBG M V = Inr (direct V)
       \<and> build_and_run M (emit V) \<phi> s = build_and_run M [Plain (direct V @ [TSemi])] \<phi> s
       \<and> (\<exists>x bytes s'. eval \<phi> v s = Inr (x, s') \<and> inserted x = Some bytes
             \<and> build_and_run M (emit V) \<phi> s = Inr (s'\<lparr>out := out s' @ bytes\<rparr>))"
  using assms primary_is_argument [OF assms(2)] insert_one [OF assms(3), of \<phi> s]
  by (simp add: DBG_enabled_expands emit_is_direct [symmetric] build_emit_value)

theorem DBG_enabled_streams_value_witness:
  "enabled (only DBG_enabled)
   \<and> primary [TIdent ''f'', TLParen, TRParen] (Call ''f'')
   \<and> streamable_expr (Call ''f'')
   \<and> DBG (only DBG_enabled) [TIdent ''f'', TLParen, TRParen] =
       Inr [TIdent ''std'', TScope, TIdent ''cout'', TShl, TIdent ''f'', TLParen, TRParen]
   \<and> build_and_run (only DBG_enabled) (emit [TIdent ''f'', TLParen, TRParen]) counting (start 41) =
       Inr \<lparr>out = ''42'', user = 42\<rparr>"
proof -
  have h1: "enabled (only DBG_enabled)"
    by (simp add: only_def enabled_def)
  have h2: "primary [TIdent ''f'', TLParen, TRParen] (Call ''f'')"
    by (simp add: primary_def primary_iff)
  have h3: "streamable_expr (Call ''f'')"
    by (simp add: streamable_expr_def)
  note inst = DBG_enabled_streams_value [OF h1 h2 h3, of counting "start 41"]
  from inst [THEN conjunct1]
  have a: "DBG (only DBG_enabled) [TIdent ''f'', TLParen, TRParen] =
      Inr [TIdent ''std'', TScope, TIdent ''cout'', TShl, TIdent ''f'', TLParen, TRParen]"
    by (simp add: direct_def)
  from inst [THEN conjunct2, THEN conjunct2]
  have b: "build_and_run (only DBG_enabled) (emit [TIdent ''f'', TLParen, TRParen]) counting
      (start 41) = Inr \<lparr>out = ''42'', user = 42\<rparr>"
    by (simp add: counting_def start_def show_int_42)
  from h1 h2 h3 a b show ?thesis by simp
qed

text \<open>
  C5. When \<^verbatim>\<open>AMQP_DEBUG\<close> is not defined where the conditional is evaluated, the
  controlling expression is valid and has the value \<open>0\<close>, the preprocessing succeeds,
  \<open>DBG\<close> gets its empty definition, and \<^verbatim>\<open>DBG(E);\<close> neither evaluates \<open>E\<close> nor
  writes.
\<close>

theorem undefined_flag_disables:
  assumes "flag env = None" and "one_argument 0 E"
  shows "pp_eval env DBG_condition = Inr 0
       \<and> conditional_only env = Inr (define_macro ''DBG'' DBG_disabled (before_include env))
       \<and> after_header (conditional_only env) (emit E) \<phi> s = Inr s"
proof -
  have "disabled (macros (define_macro ''DBG'' DBG_disabled (before_include env)))"
    by (simp add: disabled_def macros_define_macro)
  moreover have "pp_eval env DBG_condition = Inr 0"
    using assms(1) by (simp add: flag_def DBG_condition_def)
  ultimately show ?thesis
    using assms by (simp add: conditional_absent after_header_def build_disabled)
qed

theorem undefined_flag_disables_witness:
  "flag no_macros = None
   \<and> one_argument 0 [TStr ''x'']
   \<and> pp_eval no_macros DBG_condition = Inr 0
   \<and> conditional_only no_macros = Inr \<lparr>macros = only DBG_disabled, redefined = []\<rparr>
   \<and> after_header (conditional_only no_macros) (emit [TStr ''x'']) counting (start 0) = Inr (start 0)"
proof -
  have h1: "flag no_macros = None" by (simp add: flag_def no_macros_def)
  have h2: "one_argument 0 [TStr ''x'']" by simp
  note inst = undefined_flag_disables [OF h1 h2, of counting "start 0"]
  from inst [THEN conjunct2, THEN conjunct1]
  have "conditional_only no_macros = Inr \<lparr>macros = only DBG_disabled, redefined = []\<rparr>"
    by (simp add: define_macro_def before_include_def only_def no_macros_def)
  with h1 h2 inst [THEN conjunct1] inst [THEN conjunct2, THEN conjunct2]
  show ?thesis by simp
qed

text \<open>
  C6. When the consumer defines no \<^verbatim>\<open>AMQP_DEBUG\<close> before the inclusion, the header's
  own definition makes the flag \<open>1\<close> without any redefinition, the build is enabled, and
  \<^verbatim>\<open>DBG("x");\<close> writes exactly \<open>x\<close>.
\<close>

theorem default_is_enabled:
  assumes "flag env = None"
  shows "(\<exists>st. include_debug_h env = Inr st \<and> enabled (macros st)
            \<and> flag (macros st) = Some (ObjectLike [TInt 1])
            \<and> ''AMQP_DEBUG'' \<notin> set (redefined st))
       \<and> translation_unit env (emit [TStr ''x'']) \<phi> s = Inr (s\<lparr>out := out s @ ''x''\<rparr>)"
proof -
  let ?st = "define_macro ''DBG'' DBG_enabled
      (define_macro ''AMQP_DEBUG'' (ObjectLike [TInt 1]) (before_include env))"
  have "''AMQP_DEBUG'' \<notin> set (redefined ?st)"
    using assms by (simp add: flag_def define_macro_def before_include_def split: option.splits)
  moreover have "flag (macros ?st) = Some (ObjectLike [TInt 1])"
    by (simp add: flag_def macros_define_macro)
  ultimately show ?thesis
    using include_enabled [of env] by (simp add: translation_unit_string)
qed

theorem default_is_enabled_witness:
  "flag no_macros = None
   \<and> include_debug_h no_macros =
       Inr \<lparr>macros = no_macros(''AMQP_DEBUG'' \<mapsto> ObjectLike [TInt 1], ''DBG'' \<mapsto> DBG_enabled),
            redefined = []\<rparr>
   \<and> translation_unit no_macros (emit [TStr ''x'']) counting (start 0) = Inr \<lparr>out = ''x'', user = 0\<rparr>"
proof -
  have h: "flag no_macros = None" by (simp add: flag_def no_macros_def)
  from default_is_enabled [OF h, of counting "start 0", THEN conjunct2]
  have "translation_unit no_macros (emit [TStr ''x'']) counting (start 0) = Inr \<lparr>out = ''x'', user = 0\<rparr>"
    by (simp add: start_def)
  moreover have "include_debug_h no_macros =
       Inr \<lparr>macros = no_macros(''AMQP_DEBUG'' \<mapsto> ObjectLike [TInt 1], ''DBG'' \<mapsto> DBG_enabled),
            redefined = []\<rparr>"
    by (simp add: include_debug_h_result define_macro_def before_include_def no_macros_def)
  ultimately show ?thesis using h by simp
qed

text \<open>
  C2, as stated, fails: with \<^verbatim>\<open>AMQP_DEBUG\<close> defined as \<open>0\<close> before the inclusion,
  the header redefines it as \<open>1\<close> (the redefinition is diagnosed) and \<^verbatim>\<open>DBG("x");\<close>
  writes \<open>x\<close>.
\<close>

theorem external_zero_counterexample:
  "translation_unit (predefined ''AMQP_DEBUG'' [TInt 0]) (emit [TStr ''x'']) counting (start 0) =
     Inr \<lparr>out = ''x'', user = 0\<rparr>
   \<and> translation_unit (predefined ''AMQP_DEBUG'' [TInt 0]) (emit [TStr ''x'']) counting (start 0) \<noteq>
     Inr (start 0)
   \<and> include_debug_h (predefined ''AMQP_DEBUG'' [TInt 0]) =
     Inr \<lparr>macros = (predefined ''AMQP_DEBUG'' [TInt 1])(''DBG'' \<mapsto> DBG_enabled),
          redefined = [''AMQP_DEBUG'']\<rparr>"
  by (simp add: translation_unit_string start_def include_debug_h_result define_macro_def
      before_include_def predefined_def no_macros_def)

text \<open>
  C2, amended. A definition of \<^verbatim>\<open>AMQP_DEBUG\<close> made before the header is processed does
  not take priority: line 5 defines the flag unconditionally, so after the inclusion the
  flag is \<open>1\<close> and the build is enabled whatever the consumer defined, the
  redefinition is diagnosed exactly when the earlier definition was not \<open>1\<close>, and
  \<^verbatim>\<open>DBG("x");\<close> writes \<open>x\<close>.
\<close>

theorem include_replaces_external_flag:
  assumes "flag env = Some m"
  shows "(\<exists>st. include_debug_h env = Inr st
            \<and> flag (macros st) = Some (ObjectLike [TInt 1])
            \<and> enabled (macros st)
            \<and> (''AMQP_DEBUG'' \<in> set (redefined st)) = (m \<noteq> ObjectLike [TInt 1]))
       \<and> translation_unit env (emit [TStr ''x'']) \<phi> s = Inr (s\<lparr>out := out s @ ''x''\<rparr>)"
proof -
  let ?st = "define_macro ''DBG'' DBG_enabled
      (define_macro ''AMQP_DEBUG'' (ObjectLike [TInt 1]) (before_include env))"
  have "(''AMQP_DEBUG'' \<in> set (redefined ?st)) = (m \<noteq> ObjectLike [TInt 1])"
    using assms by (auto simp: flag_def define_macro_def before_include_def split: option.splits)
  moreover have "flag (macros ?st) = Some (ObjectLike [TInt 1])"
    by (simp add: flag_def macros_define_macro)
  ultimately show ?thesis
    using include_enabled [of env] by (simp add: translation_unit_string)
qed

theorem include_replaces_external_flag_witness:
  "flag (predefined ''AMQP_DEBUG'' [TInt 0]) = Some (ObjectLike [TInt 0])
   \<and> (\<exists>st. include_debug_h (predefined ''AMQP_DEBUG'' [TInt 0]) = Inr st
            \<and> flag (macros st) = Some (ObjectLike [TInt 1])
            \<and> enabled (macros st)
            \<and> ''AMQP_DEBUG'' \<in> set (redefined st))
   \<and> translation_unit (predefined ''AMQP_DEBUG'' [TInt 0]) (emit [TStr ''x'']) counting (start 0) =
       Inr \<lparr>out = ''x'', user = 0\<rparr>"
proof -
  have h: "flag (predefined ''AMQP_DEBUG'' [TInt 0]) = Some (ObjectLike [TInt 0])"
    by (simp add: flag_def predefined_def)
  from include_replaces_external_flag [OF h, of counting "start 0"] h
  show ?thesis by (simp add: start_def)
qed

text \<open>
  C4, as stated, fails: with \<^verbatim>\<open>AMQP_DEBUG\<close> defined as \<open>0\<close> before the inclusion,
  line 5 redefines the flag as \<open>1\<close>, the conditional selects the enabled definition
  and not the disabled one, and \<^verbatim>\<open>DBG(f());\<close> calls \<open>f\<close> and writes its value.
\<close>

theorem flag_zero_counterexample:
  "flag (predefined ''AMQP_DEBUG'' [TInt 0]) = Some (ObjectLike [TInt 0])
   \<and> include_debug_h (predefined ''AMQP_DEBUG'' [TInt 0]) =
       Inr \<lparr>macros = (predefined ''AMQP_DEBUG'' [TInt 1])(''DBG'' \<mapsto> DBG_enabled),
            redefined = [''AMQP_DEBUG'']\<rparr>
   \<and> enabled ((predefined ''AMQP_DEBUG'' [TInt 1])(''DBG'' \<mapsto> DBG_enabled))
   \<and> \<not> disabled ((predefined ''AMQP_DEBUG'' [TInt 1])(''DBG'' \<mapsto> DBG_enabled))
   \<and> translation_unit (predefined ''AMQP_DEBUG'' [TInt 0]) (emit [TIdent ''f'', TLParen, TRParen])
        logging (start []) = Inr \<lparr>out = ''0'', user = [''f'']\<rparr>"
proof -
  let ?M = "(predefined ''AMQP_DEBUG'' [TInt 1])(''DBG'' \<mapsto> DBG_enabled)"
  have a: "flag (predefined ''AMQP_DEBUG'' [TInt 0]) = Some (ObjectLike [TInt 0])"
    by (simp add: flag_def predefined_def)
  have b: "include_debug_h (predefined ''AMQP_DEBUG'' [TInt 0]) =
       Inr \<lparr>macros = ?M, redefined = [''AMQP_DEBUG'']\<rparr>"
    by (simp add: include_debug_h_result define_macro_def before_include_def predefined_def
        no_macros_def)
  have c: "enabled ?M" by (simp add: enabled_def)
  have d: "\<not> disabled ?M" by (simp add: disabled_def DBG_enabled_def DBG_disabled_def)
  have z: "show_int 0 = ''0''" by (simp add: show_int_def digits.simps [of 0])
  have q: "streamable_expr (Call ''f'')" by simp
  from build_emit_value [OF c primary_call q, of logging "start []"]
  have "build_and_run ?M (emit [TIdent ''f'', TLParen, TRParen]) logging (start []) =
      Inr \<lparr>out = ''0'', user = [''f'']\<rparr>"
    by (simp add: logging_def start_def z)
  with b have e: "translation_unit (predefined ''AMQP_DEBUG'' [TInt 0])
      (emit [TIdent ''f'', TLParen, TRParen]) logging (start []) =
      Inr \<lparr>out = ''0'', user = [''f'']\<rparr>"
    by (simp add: translation_unit_def after_header_def)
  from a b c d e show ?thesis by simp
qed

text \<open>
  C4, amended. The configuration surface of the header has one value. Whatever the
  consumer defines before the inclusion (no \<^verbatim>\<open>AMQP_DEBUG\<close>, \<^verbatim>\<open>AMQP_DEBUG\<close> defined as
  \<open>0\<close>, as a nonzero integer, positive or negative, or as any other tokens), line 5
  defines the flag as \<open>1\<close>, the controlling expression of line 9 has the value \<open>1\<close>,
  and the build is enabled and not disabled: \<^verbatim>\<open>DBG(E)\<close> is replaced by
  \<^verbatim>\<open>std::cout << E\<close> for every argument \<open>E\<close>.
\<close>

theorem header_enables_every_configuration:
  "\<exists>st. include_debug_h env = Inr st
      \<and> flag (macros st) = Some (ObjectLike [TInt 1])
      \<and> pp_eval (macros st) DBG_condition = Inr 1
      \<and> enabled (macros st)
      \<and> \<not> disabled (macros st)
      \<and> (\<forall>E. one_argument 0 E \<longrightarrow> DBG (macros st) E = Inr (direct E))"
proof -
  let ?st = "define_macro ''DBG'' DBG_enabled
      (define_macro ''AMQP_DEBUG'' (ObjectLike [TInt 1]) (before_include env))"
  from include_enabled [of env]
  have i: "include_debug_h env = Inr ?st" and e: "enabled (macros ?st)"
    by simp_all
  have f: "flag (macros ?st) = Some (ObjectLike [TInt 1])"
    by (simp add: flag_def macros_define_macro)
  then have c: "pp_eval (macros ?st) DBG_condition = Inr 1"
    by (simp add: flag_def DBG_condition_def intmax_max_def)
  from e have d: "\<not> disabled (macros ?st)"
    by (simp add: enabled_def disabled_def DBG_enabled_def DBG_disabled_def)
  from e have "\<forall>E. one_argument 0 E \<longrightarrow> DBG (macros ?st) E = Inr (direct E)"
    by (simp add: DBG_enabled_expands)
  with i f c e d show ?thesis by blast
qed

theorem header_enables_every_configuration_witness:
  "one_argument 0 [TStr ''x'']
   \<and> (\<exists>st. include_debug_h no_macros = Inr st \<and> enabled (macros st) \<and> \<not> disabled (macros st)
          \<and> DBG (macros st) [TStr ''x''] = Inr (direct [TStr ''x'']))
   \<and> (\<exists>st. include_debug_h (predefined ''AMQP_DEBUG'' [TInt 0]) = Inr st
          \<and> enabled (macros st) \<and> \<not> disabled (macros st)
          \<and> DBG (macros st) [TStr ''x''] = Inr (direct [TStr ''x'']))
   \<and> (\<exists>st. include_debug_h (predefined ''AMQP_DEBUG'' [TInt 2]) = Inr st
          \<and> enabled (macros st) \<and> \<not> disabled (macros st)
          \<and> DBG (macros st) [TStr ''x''] = Inr (direct [TStr ''x'']))
   \<and> (\<exists>st. include_debug_h (predefined ''AMQP_DEBUG'' [TMinus, TInt 1]) = Inr st
          \<and> enabled (macros st) \<and> \<not> disabled (macros st)
          \<and> DBG (macros st) [TStr ''x''] = Inr (direct [TStr ''x'']))"
proof -
  have h: "one_argument 0 [TStr ''x'']" by simp
  have a: "\<exists>st. include_debug_h env = Inr st \<and> enabled (macros st) \<and> \<not> disabled (macros st)
          \<and> DBG (macros st) [TStr ''x''] = Inr (direct [TStr ''x''])" for env
    using header_enables_every_configuration [of env] h by blast
  from h a [of no_macros] a [of "predefined ''AMQP_DEBUG'' [TInt 0]"]
    a [of "predefined ''AMQP_DEBUG'' [TInt 2]"] a [of "predefined ''AMQP_DEBUG'' [TMinus, TInt 1]"]
  show ?thesis by blast
qed

text \<open>
  C7. In an enabled build, two invocations in immediate succession with the same value
  \<open>V\<close> do what one invocation does, twice over: the second runs exactly as a single
  invocation run from the state the first one left, nothing else being carried from one
  to the other. For a literal \<open>V\<close> the bytes written are those of a single invocation,
  twice.
\<close>

theorem DBG_twice_concatenates:
  assumes "enabled M" and "primary V v" and "streamable_expr v"
  shows "(\<exists>s1 s2. build_and_run M (emit V) \<phi> s = Inr s1
            \<and> build_and_run M (emit V) \<phi> s1 = Inr s2
            \<and> build_and_run M (emit V @ emit V) \<phi> s = Inr s2)
       \<and> (\<forall>x. V = [TStr x] \<longrightarrow>
            build_and_run M (emit V) \<phi> s = Inr (s\<lparr>out := out s @ x\<rparr>)
            \<and> build_and_run M (emit V @ emit V) \<phi> s = Inr (s\<lparr>out := out s @ x @ x\<rparr>))
       \<and> (\<forall>n. V = [TInt n] \<longrightarrow>
            build_and_run M (emit V) \<phi> s = Inr (s\<lparr>out := out s @ show_int (int n)\<rparr>)
            \<and> build_and_run M (emit V @ emit V) \<phi> s =
                Inr (s\<lparr>out := out s @ show_int (int n) @ show_int (int n)\<rparr>))"
proof (intro conjI allI impI)
  from insert_each_total [of "[v]" \<phi> s] assms(3) obtain s1
    where s1: "insert_each \<phi> [v] s = Inr s1" by auto
  from insert_each_total [of "[v]" \<phi> s1] assms(3) obtain s2
    where s2: "insert_each \<phi> [v] s1 = Inr s2" by auto
  from s1 s2 show "\<exists>s1 s2. build_and_run M (emit V) \<phi> s = Inr s1
            \<and> build_and_run M (emit V) \<phi> s1 = Inr s2
            \<and> build_and_run M (emit V @ emit V) \<phi> s = Inr s2"
    by (simp add: build_emit_value [OF assms] build_emit_twice [OF assms])
next
  fix x assume "V = [TStr x]"
  with assms(2) have v: "v = StrE x" by (simp add: primary_def primary_iff)
  then show "build_and_run M (emit V) \<phi> s = Inr (s\<lparr>out := out s @ x\<rparr>)"
    by (simp add: build_emit_value [OF assms])
  from v show "build_and_run M (emit V @ emit V) \<phi> s = Inr (s\<lparr>out := out s @ x @ x\<rparr>)"
    by (simp add: build_emit_twice [OF assms])
next
  fix n assume "V = [TInt n]"
  with assms(2) have v: "v = IntE n" by (simp add: primary_def primary_iff)
  then show "build_and_run M (emit V) \<phi> s = Inr (s\<lparr>out := out s @ show_int (int n)\<rparr>)"
    by (simp add: build_emit_value [OF assms])
  from v show "build_and_run M (emit V @ emit V) \<phi> s =
                Inr (s\<lparr>out := out s @ show_int (int n) @ show_int (int n)\<rparr>)"
    by (simp add: build_emit_twice [OF assms])
qed

theorem DBG_twice_concatenates_witness:
  "enabled (only DBG_enabled)
   \<and> primary [TStr ''ab''] (StrE ''ab'')
   \<and> streamable_expr (StrE ''ab'')
   \<and> build_and_run (only DBG_enabled) (emit [TStr ''ab'']) counting (start 0) =
       Inr \<lparr>out = ''ab'', user = 0\<rparr>
   \<and> build_and_run (only DBG_enabled) (emit [TStr ''ab''] @ emit [TStr ''ab'']) counting (start 0) =
       Inr \<lparr>out = ''abab'', user = 0\<rparr>
   \<and> primary [TInt 42] (IntE 42)
   \<and> streamable_expr (IntE 42)
   \<and> build_and_run (only DBG_enabled) (emit [TInt 42]) counting (start 0) =
       Inr \<lparr>out = ''42'', user = 0\<rparr>
   \<and> build_and_run (only DBG_enabled) (emit [TInt 42] @ emit [TInt 42]) counting (start 0) =
       Inr \<lparr>out = ''4242'', user = 0\<rparr>"
proof -
  have h1: "enabled (only DBG_enabled)" by (simp add: only_def enabled_def)
  have h2: "primary [TStr ''ab''] (StrE ''ab'')" by (rule primary_string)
  have h3: "streamable_expr (StrE ''ab'')" by simp
  have h4: "primary [TInt 42] (IntE 42)" by (rule primary_int)
  have h5: "streamable_expr (IntE 42)" by simp
  note inst = DBG_twice_concatenates [OF h1 h2 h3, of counting "start 0",
      THEN conjunct2, THEN conjunct1, rule_format, of "''ab''"]
  from inst have a: "build_and_run (only DBG_enabled) (emit [TStr ''ab'']) counting (start 0) =
       Inr \<lparr>out = ''ab'', user = 0\<rparr>"
    by (simp add: start_def)
  from inst have b: "build_and_run (only DBG_enabled) (emit [TStr ''ab''] @ emit [TStr ''ab''])
      counting (start 0) = Inr \<lparr>out = ''abab'', user = 0\<rparr>"
    by (simp add: start_def)
  note num = DBG_twice_concatenates [OF h1 h4 h5, of counting "start 0",
      THEN conjunct2, THEN conjunct2, rule_format, of 42]
  from num have c: "build_and_run (only DBG_enabled) (emit [TInt 42]) counting (start 0) =
       Inr \<lparr>out = ''42'', user = 0\<rparr>"
    by (simp add: start_def show_int_42)
  from num have d: "build_and_run (only DBG_enabled) (emit [TInt 42] @ emit [TInt 42])
      counting (start 0) = Inr \<lparr>out = ''4242'', user = 0\<rparr>"
    by (simp add: start_def show_int_42)
  from h1 h2 h3 h4 h5 a b c d show ?thesis by simp
qed

text \<open>
  C8, as stated, fails: in an enabled build, which is what the header gives, the
  streamable expression \<^verbatim>\<open>f()\<close>, where \<^verbatim>\<open>int f()\<close> is a function of the consumer
  that throws, makes \<^verbatim>\<open>DBG(f());\<close> end with the exception when it runs. The build
  has succeeded: this is no type error.
\<close>

theorem throwing_argument_counterexample:
  "primary [TIdent ''f'', TLParen, TRParen] (Call ''f'')
   \<and> streamable_expr (Call ''f'')
   \<and> translation_unit_x no_macros (emit [TIdent ''f'', TLParen, TRParen]) throwing (good (start 0)) =
       Inl (Raised ''std::runtime_error'')
   \<and> build_and_run_x (only DBG_enabled) (emit [TIdent ''f'', TLParen, TRParen]) throwing
        (good (start 0)) = Inl (Raised ''std::runtime_error'')
   \<and> \<not> build_failure (Raised ''std::runtime_error'')"
proof -
  have p: "primary [TIdent ''f'', TLParen, TRParen] (Call ''f'')" by (rule primary_call)
  have q: "streamable_expr (Call ''f'')" by simp
  have r: "stream_x throwing (Call ''f'') (good (start 0)) = Inl (Raised ''std::runtime_error'')"
    by (simp add: stream_x_def throwing_def)
  have en: "enabled (only DBG_enabled)" by (simp add: only_def enabled_def)
  have en': "enabled (macros (define_macro ''DBG'' DBG_enabled
       (define_macro ''AMQP_DEBUG'' (ObjectLike [TInt 1]) (before_include no_macros))))"
    using include_enabled [of no_macros] by simp
  have a: "translation_unit_x no_macros (emit [TIdent ''f'', TLParen, TRParen]) throwing
      (good (start 0)) = stream_x throwing (Call ''f'') (good (start 0))"
    unfolding translation_unit_x_enabled by (rule build_emit_value_x [OF en' p q])
  have b: "build_and_run_x (only DBG_enabled) (emit [TIdent ''f'', TLParen, TRParen]) throwing
      (good (start 0)) = stream_x throwing (Call ''f'') (good (start 0))"
    by (rule build_emit_value_x [OF en p q])
  from p q show ?thesis
    unfolding a b r by simp
qed

text \<open>
  C8, amended. The operation has no failure of its own, but in an enabled build it fails
  when it runs if the evaluation of its argument does. In a disabled build
  \<^verbatim>\<open>DBG(E);\<close> is a no-op for every argument \<open>E\<close>, whatever \<open>E\<close> would do and whatever
  the state of the stream. In an enabled build, for a streamable value \<open>V\<close>,
  \<^verbatim>\<open>DBG(V);\<close> is the statement \<^verbatim>\<open>std::cout << V;\<close> and does what it does, with no
  check, handler or report added. If the evaluation of \<open>V\<close> returns, the statement
  returns: the bytes are written when the stream is good, and when the stream has failed
  nothing is written, nothing is reported and the stream stays as it is. If the
  evaluation of \<open>V\<close> throws, the exception leaves the statement, and a failure of the
  statement is always this exception. For a value that is ill-typed or is a stream, the
  build fails with a type error.
\<close>

theorem DBG_fails_only_with_its_argument:
  assumes "primary V v"
  shows "(\<forall>E. disabled M \<and> one_argument 0 E \<longrightarrow> build_and_run_x M (emit E) \<phi> s = Inr s)
       \<and> (enabled M \<and> streamable_expr v \<longrightarrow>
            build_and_run_x M (emit V) \<phi> s = stream_x \<phi> v s
            \<and> build_and_run_x M (emit V) \<phi> s =
                build_and_run_x M [Plain (direct V @ [TSemi])] \<phi> s
            \<and> (\<forall>x s'. eval_x \<phi> v s = Inr (x, s') \<longrightarrow>
                 (\<exists>bytes. inserted x = Some bytes
                    \<and> build_and_run_x M (emit V) \<phi> s =
                        Inr (if failed s' then s' else s'\<lparr>out := out s' @ bytes\<rparr>)))
            \<and> (\<forall>f. build_and_run_x M (emit V) \<phi> s = Inl f \<longrightarrow>
                 (\<exists>x. f = Raised x) \<and> eval_x \<phi> v s = Inl f))
       \<and> (enabled M \<and> (ill_typed v \<or> typeof v = Some TyStream) \<longrightarrow>
            build_and_run_x M (emit V) \<phi> s = Inl TypeError)"
proof (intro conjI allI impI)
  fix E assume "disabled M \<and> one_argument 0 E"
  then show "build_and_run_x M (emit E) \<phi> s = Inr s"
    by (simp add: build_disabled_x)
next
  assume "enabled M \<and> (ill_typed v \<or> typeof v = Some TyStream)"
  then have "enabled M" and "ill_typed v \<or> typeof v = Some TyStream"
    by blast+
  with assms show "build_and_run_x M (emit V) \<phi> s = Inl TypeError"
    by (intro build_emit_not_streamable_x)
next
  assume a: "enabled M \<and> streamable_expr v"
  then have b: "build_and_run_x M (emit V) \<phi> s = stream_x \<phi> v s"
    using assms by (intro build_emit_value_x) simp_all
  then show "build_and_run_x M (emit V) \<phi> s = stream_x \<phi> v s" .
  from a expand_emit_enabled [OF _ primary_is_argument [OF assms], of M]
  show "build_and_run_x M (emit V) \<phi> s = build_and_run_x M [Plain (direct V @ [TSemi])] \<phi> s"
    by (simp add: build_and_run_x_def)
  {
    fix x s' assume "eval_x \<phi> v s = Inr (x, s')"
    with stream_x_outcome [of v \<phi> s] a b
    show "\<exists>bytes. inserted x = Some bytes
        \<and> build_and_run_x M (emit V) \<phi> s =
            Inr (if failed s' then s' else s'\<lparr>out := out s' @ bytes\<rparr>)"
      by (auto simp: insertion_def)
  }
  {
    fix f assume "build_and_run_x M (emit V) \<phi> s = Inl f"
    with stream_x_outcome [of v \<phi> s] a b
    show "\<exists>x. f = Raised x" and "eval_x \<phi> v s = Inl f"
      by auto
  }
qed

theorem DBG_fails_only_with_its_argument_witness:
  "primary [TIdent ''f'', TLParen, TRParen] (Call ''f'')
   \<and> primary [TStr ''x''] (StrE ''x'')
   \<and> primary cout Cout
   \<and> enabled (only DBG_enabled) \<and> disabled (only DBG_disabled)
   \<and> streamable_expr (Call ''f'') \<and> streamable_expr (StrE ''x'')
   \<and> one_argument 0 [TIdent ''f'', TLParen, TRParen]
   \<and> build_and_run_x (only DBG_enabled) (emit [TIdent ''f'', TLParen, TRParen]) throwing
        (good (start 0)) = Inl (Raised ''std::runtime_error'')
   \<and> build_and_run_x (only DBG_disabled) (emit [TIdent ''f'', TLParen, TRParen]) throwing
        (good (start 0)) = Inr (good (start 0))
   \<and> build_and_run_x (only DBG_enabled) (emit [TStr ''x'']) (returning counting)
        (good (start 0)) = Inr \<lparr>out = ''x'', user = 0, failed = False\<rparr>
   \<and> build_and_run_x (only DBG_enabled) (emit [TStr ''x'']) (returning counting)
        (broken (start 0)) = Inr \<lparr>out = [], user = 0, failed = True\<rparr>
   \<and> build_and_run_x (only DBG_enabled) (emit cout) (returning counting) (good (start 0)) =
        Inl TypeError"
proof -
  have h1: "primary [TIdent ''f'', TLParen, TRParen] (Call ''f'')" by (rule primary_call)
  have h2: "primary [TStr ''x''] (StrE ''x'')" by (rule primary_string)
  have h3: "primary cout Cout" by (rule primary_cout)
  have h4: "enabled (only DBG_enabled)" by (simp add: only_def enabled_def)
  have h5: "disabled (only DBG_disabled)" by (simp add: only_def disabled_def)
  have h6: "streamable_expr (Call ''f'')" by simp
  have h7: "streamable_expr (StrE ''x'')" by simp
  have h8: "one_argument 0 [TIdent ''f'', TLParen, TRParen]" by simp
  from DBG_fails_only_with_its_argument [OF h1, of "only DBG_enabled" throwing "good (start 0)",
      THEN conjunct2, THEN conjunct1, rule_format, OF conjI [OF h4 h6], THEN conjunct1]
  have a: "build_and_run_x (only DBG_enabled) (emit [TIdent ''f'', TLParen, TRParen]) throwing
        (good (start 0)) = Inl (Raised ''std::runtime_error'')"
    by (simp add: stream_x_def throwing_def)
  from DBG_fails_only_with_its_argument [OF h1, of "only DBG_disabled" throwing "good (start 0)",
      THEN conjunct1, rule_format, OF conjI [OF h5 h8]]
  have b: "build_and_run_x (only DBG_disabled) (emit [TIdent ''f'', TLParen, TRParen]) throwing
        (good (start 0)) = Inr (good (start 0))" .
  from DBG_fails_only_with_its_argument [OF h2, of "only DBG_enabled" "returning counting"
      "good (start 0)", THEN conjunct2, THEN conjunct1, rule_format, OF conjI [OF h4 h7],
      THEN conjunct2, THEN conjunct2, THEN conjunct1, rule_format,
      of "VStr ''x''" "good (start 0)"]
  have c: "build_and_run_x (only DBG_enabled) (emit [TStr ''x'']) (returning counting)
        (good (start 0)) = Inr \<lparr>out = ''x'', user = 0, failed = False\<rparr>"
    by (simp add: good_def start_def)
  from DBG_fails_only_with_its_argument [OF h2, of "only DBG_enabled" "returning counting"
      "broken (start 0)", THEN conjunct2, THEN conjunct1, rule_format, OF conjI [OF h4 h7],
      THEN conjunct2, THEN conjunct2, THEN conjunct1, rule_format,
      of "VStr ''x''" "broken (start 0)"]
  have d: "build_and_run_x (only DBG_enabled) (emit [TStr ''x'']) (returning counting)
        (broken (start 0)) = Inr \<lparr>out = [], user = 0, failed = True\<rparr>"
    by (simp add: broken_def start_def)
  from DBG_fails_only_with_its_argument [OF h3, of "only DBG_enabled" "returning counting"
      "good (start 0)", THEN conjunct2, THEN conjunct2] h4
  have e: "build_and_run_x (only DBG_enabled) (emit cout) (returning counting) (good (start 0)) =
        Inl TypeError"
    by simp
  from h1 h2 h3 h4 h5 h6 h7 h8 a b c d e show ?thesis by simp
qed

text \<open>
  C9. The enabled replacement list splices the argument, without parentheses, after
  \<^verbatim>\<open>std::cout <<\<close>. A chain \<^verbatim>\<open>V << V1 << ... << Vn\<close> of values is therefore accepted
  as one argument and each part is written in order, from left to right. Conversely,
  for the argument \<^verbatim>\<open>1 ? "a" : "b"\<close>, whose outermost operator binds more loosely
  than \<^verbatim>\<open><<\<close>, \<^verbatim>\<open>DBG(E);\<close> is parsed as \<^verbatim>\<open>(std::cout << 1) ? "a" : "b";\<close> and
  writes \<open>1\<close>, while streaming the parenthesised expression,
  \<^verbatim>\<open>std::cout << (1 ? "a" : "b");\<close>, writes \<open>a\<close>.
\<close>

theorem DBG_splices_unparenthesised:
  assumes "enabled M"
  shows "(\<forall>V v Vs vs. primary V v \<and> list_all2 primary Vs vs \<and> list_all streamable_expr (v # vs) \<longrightarrow>
            DBG M (chain V Vs) = Inr (direct (chain V Vs))
            \<and> build_and_run M (emit (chain V Vs)) \<phi> s = insert_each \<phi> (v # vs) s
            \<and> (\<exists>s'. insert_each \<phi> (v # vs) s = Inr s'))
       \<and> compile (direct conditional_example @ [TSemi]) =
            Inr [ExprStmt (Cond (Shl Cout (IntE 1)) (StrE ''a'') (StrE ''b''))]
       \<and> compile (direct (parenthesise conditional_example) @ [TSemi]) =
            Inr [ExprStmt (Shl Cout (Cond (IntE 1) (StrE ''a'') (StrE ''b'')))]
       \<and> build_and_run M (emit conditional_example) \<phi> s = Inr (s\<lparr>out := out s @ ''1''\<rparr>)
       \<and> build_and_run M [Plain (direct (parenthesise conditional_example) @ [TSemi])] \<phi> s =
            Inr (s\<lparr>out := out s @ ''a''\<rparr>)"
proof (intro conjI allI impI)
  fix V v Vs vs
  assume "primary V v \<and> list_all2 primary Vs vs \<and> list_all streamable_expr (v # vs)"
  then have p: "primary V v" and q: "list_all2 primary Vs vs"
    and r: "list_all streamable_expr (v # vs)"
    by simp_all
  from p q have arg: "one_argument 0 (chain V Vs)" by (rule chain_one_argument)
  from assms arg show "DBG M (chain V Vs) = Inr (direct (chain V Vs))"
    by (rule DBG_enabled_expands)
  from assms p q r show "build_and_run M (emit (chain V Vs)) \<phi> s = insert_each \<phi> (v # vs) s"
    by (rule build_emit_chain)
  from r show "\<exists>s'. insert_each \<phi> (v # vs) s = Inr s'"
    by (rule insert_each_total)
next
  show "compile (direct conditional_example @ [TSemi]) =
        Inr [ExprStmt (Cond (Shl Cout (IntE 1)) (StrE ''a'') (StrE ''b''))]"
    by (rule compile_conditional_example)
next
  show "compile (direct (parenthesise conditional_example) @ [TSemi]) =
        Inr [ExprStmt (Shl Cout (Cond (IntE 1) (StrE ''a'') (StrE ''b'')))]"
    using compile_value [OF primary_parenthesised_example streamable_example] .
next
  show "build_and_run M (emit conditional_example) \<phi> s = Inr (s\<lparr>out := out s @ ''1''\<rparr>)"
    using expand_emit_enabled [OF assms one_argument_example] compile_conditional_example
    by (simp add: build_and_run_def show_int_1)
next
  have "build_and_run M (emit (parenthesise conditional_example)) \<phi> s =
      Inr (s\<lparr>out := out s @ ''a''\<rparr>)"
    by (simp add: build_emit_value [OF assms primary_parenthesised_example streamable_example])
  then show "build_and_run M [Plain (direct (parenthesise conditional_example) @ [TSemi])] \<phi> s =
        Inr (s\<lparr>out := out s @ ''a''\<rparr>)"
    using emit_is_direct [OF assms primary_is_argument [OF primary_parenthesised_example], of \<phi> s]
    by simp
qed

theorem DBG_splices_unparenthesised_witness:
  "enabled (only DBG_enabled)
   \<and> primary [TIdent ''a''] (Var ''a'')
   \<and> list_all2 primary [[TStr '' ''], [TIdent ''b'', TLParen, TRParen]] [StrE '' '', Call ''b'']
   \<and> list_all streamable_expr [Var ''a'', StrE '' '', Call ''b'']
   \<and> build_and_run (only DBG_enabled)
        (emit [TIdent ''a'', TShl, TStr '' '', TShl, TIdent ''b'', TLParen, TRParen])
        counting (start 4) = Inr \<lparr>out = ''4 5'', user = 5\<rparr>"
proof -
  have h1: "enabled (only DBG_enabled)" by (simp add: only_def enabled_def)
  have h2: "primary [TIdent ''a''] (Var ''a'')" by (rule primary_var)
  have h3: "list_all2 primary [[TStr '' ''], [TIdent ''b'', TLParen, TRParen]] [StrE '' '', Call ''b'']"
    by (simp add: primary_string primary_call)
  have h4: "list_all streamable_expr [Var ''a'', StrE '' '', Call ''b'']" by simp
  have d4: "show_int 4 = ''4''" by (simp add: show_int_def digits.simps [of 4])
  have d5: "show_int 5 = ''5''" by (simp add: show_int_def digits.simps [of 5])
  from DBG_splices_unparenthesised [OF h1, of counting "start 4", THEN conjunct1, rule_format,
      of "[TIdent ''a'']" "Var ''a''"
         "[[TStr '' ''], [TIdent ''b'', TLParen, TRParen]]" "[StrE '' '', Call ''b'']",
      THEN conjunct2, THEN conjunct1] h2 h3 h4
  have "build_and_run (only DBG_enabled)
        (emit [TIdent ''a'', TShl, TStr '' '', TShl, TIdent ''b'', TLParen, TRParen])
        counting (start 4) = Inr \<lparr>out = ''4 5'', user = 5\<rparr>"
    by (simp add: chain_def counting_def start_def d4 d5)
  with h1 h2 h3 h4 show ?thesis by simp
qed

text \<open>
  C10, as stated, fails: a context that takes \<^verbatim>\<open>DBG(X)\<close> as a value can compile in a
  disabled build. In \<^verbatim>\<open>g(DBG(1));\<close> the disabled expansion leaves \<^verbatim>\<open>g();\<close>, which
  compiles and calls \<open>g\<close>.
\<close>

theorem call_argument_counterexample:
  "disabled (only DBG_disabled)
   \<and> primary [TInt 1] (IntE 1)
   \<and> expand_text (only DBG_disabled) (as_argument ''g'' [TInt 1]) =
       Inr [TIdent ''g'', TLParen, TRParen, TSemi]
   \<and> compile [TIdent ''g'', TLParen, TRParen, TSemi] = Inr [ExprStmt (Call ''g'')]
   \<and> build_and_run (only DBG_disabled) (as_argument ''g'' [TInt 1]) counting (start 0) =
       Inr \<lparr>out = [], user = 1\<rparr>"
proof -
  have d: "disabled (only DBG_disabled)" by (simp add: only_def disabled_def)
  have p: "primary [TInt 1] (IntE 1)" by (rule primary_int)
  have o: "one_argument 0 [TInt 1]" by simp
  have "list_all2 primary [] []" by simp
  from parse_stmts_chain [OF primary_call this, of "''g''" "[]"]
  have "parse_stmts [TIdent ''g'', TLParen, TRParen, TSemi] = Some [ExprStmt (Call ''g'')]"
    by (simp add: chain_Nil parse_stmts_Nil)
  then have c: "compile [TIdent ''g'', TLParen, TRParen, TSemi] = Inr [ExprStmt (Call ''g'')]"
    by (simp add: compile_def)
  from argument_disabled(2) [OF d o, of "''g''" counting "start 0"]
  have r: "build_and_run (only DBG_disabled) (as_argument ''g'' [TInt 1]) counting (start 0) =
       Inr \<lparr>out = [], user = 1\<rparr>"
    by (simp add: counting_def start_def)
  from d p c r argument_disabled(1) [OF d o, of "''g''"] show ?thesis by simp
qed

text \<open>
  C10, amended. The two modes are not interchangeable at every call site. In an enabled
  build \<^verbatim>\<open>DBG(V)\<close> is the expression \<^verbatim>\<open>std::cout << V\<close>, of stream type, whose value
  is the stream. In a disabled build it is replaced by no token, so \<^verbatim>\<open>DBG(V);\<close> is
  the empty statement, and a call site that uses \<^verbatim>\<open>DBG(V)\<close> as an operand (the left
  operand of \<^verbatim>\<open><<\<close>, the condition or an arm of \<^verbatim>\<open>?:\<close>, a parenthesised
  expression) has a syntax error, while the same call site compiles and runs in an
  enabled build. This is not so of every context that takes \<^verbatim>\<open>DBG(V)\<close> as a value:
  as the argument of a call, \<^verbatim>\<open>g(DBG(V));\<close> is \<^verbatim>\<open>g();\<close> in a disabled build, which
  compiles and runs.
\<close>

theorem modes_not_interchangeable:
  assumes "primary V v" and "streamable_expr v"
  shows "(enabled M \<longrightarrow>
            expand_text M (emit V) = Inr (direct V @ [TSemi])
            \<and> compile (direct V @ [TSemi]) = Inr [ExprStmt (Shl Cout v)]
            \<and> typeof (Shl Cout v) = Some TyStream
            \<and> (\<exists>s'. eval \<phi> (Shl Cout v) s = Inr (VStream, s')))
       \<and> (disabled M \<longrightarrow>
            DBG M V = Inr []
            \<and> expand_text M (emit V) = Inr [TSemi]
            \<and> compile [TSemi] = Inr [Empty])
       \<and> (disabled M \<longrightarrow>
            (\<forall>W A B. build_and_run M (as_left_operand V W) \<phi> s = Inl SyntaxError
               \<and> build_and_run M (as_condition V A B) \<phi> s = Inl SyntaxError
               \<and> build_and_run M (parenthesised V) \<phi> s = Inl SyntaxError))
       \<and> (disabled M \<longrightarrow>
            (\<forall>C c W. primary C c \<and> one_argument 0 W \<longrightarrow>
               build_and_run M (as_arms C V W) \<phi> s = Inl SyntaxError))
       \<and> (enabled M \<longrightarrow>
            (\<forall>W w. primary W w \<and> streamable_expr w \<longrightarrow>
               build_and_run M (as_left_operand V W) \<phi> s = insert_each \<phi> [v, w] s
               \<and> (\<exists>s'. insert_each \<phi> [v, w] s = Inr s')))
       \<and> (enabled M \<longrightarrow>
            (\<forall>A a B b t. primary A a \<and> primary B b \<and> typeof a = Some t \<and> typeof b = Some t \<longrightarrow>
               (\<exists>s1 s2. insert_each \<phi> [v] s = Inr s1 \<and> exec \<phi> (ExprStmt a) s1 = Inr s2
                  \<and> build_and_run M (as_condition V A B) \<phi> s = Inr s2)))
       \<and> (enabled M \<longrightarrow>
            build_and_run M (parenthesised V) \<phi> s = insert_each \<phi> [v] s
            \<and> (\<exists>s'. insert_each \<phi> [v] s = Inr s'))
       \<and> (enabled M \<longrightarrow>
            (\<forall>C c tc W w. primary C c \<and> typeof c = Some tc \<and> primary W w \<and> streamable_expr w \<longrightarrow>
               (\<exists>x s1 s2. eval \<phi> c s = Inr (x, s1)
                  \<and> insert_each \<phi> [if truthy x then v else w] s1 = Inr s2
                  \<and> build_and_run M (as_arms C V W) \<phi> s = Inr s2)))
       \<and> (disabled M \<longrightarrow>
            (\<forall>g. expand_text M (as_argument g V) = Inr [TIdent g, TLParen, TRParen, TSemi]
               \<and> build_and_run M (as_argument g V) \<phi> s =
                   Inr (s\<lparr>user := snd (call \<phi> g (user s))\<rparr>)))"
proof (intro conjI impI allI)
  note arg = primary_is_argument [OF assms(1)]
  {
    assume en: "enabled M"
    from en arg show "expand_text M (emit V) = Inr (direct V @ [TSemi])"
      by (rule expand_emit_enabled)
    from assms show "compile (direct V @ [TSemi]) = Inr [ExprStmt (Shl Cout v)]"
      by (rule compile_value)
    from assms(2) show ty: "typeof (Shl Cout v) = Some TyStream"
      by (rule typeof_insertion)
    from typeof_eval [OF ty, of \<phi> s]
    show "\<exists>s'. eval \<phi> (Shl Cout v) s = Inr (VStream, s')"
      by (auto simp del: eval.simps simp: val_ty_stream)
    from en assms show "build_and_run M (parenthesised V) \<phi> s = insert_each \<phi> [v] s"
      by (rule parenthesised_enabled)
    from assms(2) have "list_all streamable_expr [v]" by simp
    then show "\<exists>s'. insert_each \<phi> [v] s = Inr s'"
      by (rule insert_each_total)
  }
  {
    assume dis: "disabled M"
    from dis arg show "DBG M V = Inr []"
      by (rule DBG_disabled_expands)
    from dis arg show "expand_text M (emit V) = Inr [TSemi]"
      by (rule expand_emit_disabled)
    show "compile [TSemi] = Inr [Empty]"
      by (simp add: compile_def parse_stmts_semi)
    fix W A B
    from dis arg show "build_and_run M (as_left_operand V W) \<phi> s = Inl SyntaxError"
      by (rule contexts_disabled)
    from dis arg show "build_and_run M (as_condition V A B) \<phi> s = Inl SyntaxError"
      by (rule contexts_disabled)
    from dis arg show "build_and_run M (parenthesised V) \<phi> s = Inl SyntaxError"
      by (rule contexts_disabled)
  }
  {
    fix C c W
    assume dis: "disabled M" and "primary C c \<and> one_argument 0 W"
    then have "primary C c" "one_argument 0 W" by simp_all
    with dis arg show "build_and_run M (as_arms C V W) \<phi> s = Inl SyntaxError"
      by (intro arms_disabled)
  }
  {
    fix W w
    assume en: "enabled M" and "primary W w \<and> streamable_expr w"
    then have w: "primary W w" "streamable_expr w" by simp_all
    with en assms show "build_and_run M (as_left_operand V W) \<phi> s = insert_each \<phi> [v, w] s"
      by (intro left_operand_enabled)
    from w assms(2) have "list_all streamable_expr [v, w]" by simp
    then show "\<exists>s'. insert_each \<phi> [v, w] s = Inr s'"
      by (rule insert_each_total)
  }
  {
    fix A a B b t
    assume en: "enabled M"
      and "primary A a \<and> primary B b \<and> typeof a = Some t \<and> typeof b = Some t"
    then have "primary A a" "primary B b" "typeof a = Some t" "typeof b = Some t"
      by simp_all
    with en assms
    show "\<exists>s1 s2. insert_each \<phi> [v] s = Inr s1 \<and> exec \<phi> (ExprStmt a) s1 = Inr s2
        \<and> build_and_run M (as_condition V A B) \<phi> s = Inr s2"
      by (intro condition_enabled)
  }
  {
    fix C c tc W w
    assume en: "enabled M"
      and "primary C c \<and> typeof c = Some tc \<and> primary W w \<and> streamable_expr w"
    then have "primary W w" "streamable_expr w" "primary C c" "typeof c = Some tc"
      by simp_all
    with en assms
    show "\<exists>x s1 s2. eval \<phi> c s = Inr (x, s1)
        \<and> insert_each \<phi> [if truthy x then v else w] s1 = Inr s2
        \<and> build_and_run M (as_arms C V W) \<phi> s = Inr s2"
      by (intro arms_enabled)
  }
  {
    fix g
    assume dis: "disabled M"
    from dis arg
    show "expand_text M (as_argument g V) = Inr [TIdent g, TLParen, TRParen, TSemi]"
      by (rule argument_disabled(1))
    from dis arg
    show "build_and_run M (as_argument g V) \<phi> s = Inr (s\<lparr>user := snd (call \<phi> g (user s))\<rparr>)"
      by (rule argument_disabled(2))
  }
qed

theorem modes_not_interchangeable_witness:
  "primary [TInt 7] (IntE 7) \<and> streamable_expr (IntE 7)
   \<and> enabled (only DBG_enabled) \<and> disabled (only DBG_disabled)
   \<and> primary [TStr ''!''] (StrE ''!'') \<and> streamable_expr (StrE ''!'')
   \<and> expand_text (only DBG_disabled) (emit [TInt 7]) = Inr [TSemi]
   \<and> build_and_run (only DBG_disabled) (as_left_operand [TInt 7] [TStr ''!'']) counting (start 0) =
       Inl SyntaxError
   \<and> build_and_run (only DBG_enabled) (as_left_operand [TInt 7] [TStr ''!'']) counting (start 0) =
       Inr \<lparr>out = ''7!'', user = 0\<rparr>
   \<and> build_and_run (only DBG_disabled) (parenthesised [TInt 7]) counting (start 0) = Inl SyntaxError
   \<and> build_and_run (only DBG_enabled) (parenthesised [TInt 7]) counting (start 0) =
       Inr \<lparr>out = ''7'', user = 0\<rparr>
   \<and> build_and_run (only DBG_disabled)
        (as_condition [TInt 7] [TIdent ''f'', TLParen, TRParen] [TIdent ''g'', TLParen, TRParen])
        counting (start 0) = Inl SyntaxError
   \<and> build_and_run (only DBG_enabled)
        (as_condition [TInt 7] [TIdent ''f'', TLParen, TRParen] [TIdent ''g'', TLParen, TRParen])
        counting (start 0) = Inr \<lparr>out = ''7'', user = 1\<rparr>
   \<and> build_and_run (only DBG_disabled) (as_arms [TIdent ''x''] [TInt 7] [TStr ''!''])
        counting (start 0) = Inl SyntaxError
   \<and> build_and_run (only DBG_enabled) (as_arms [TIdent ''x''] [TInt 7] [TStr ''!''])
        counting (start 0) = Inr \<lparr>out = ''!'', user = 0\<rparr>
   \<and> build_and_run (only DBG_disabled) (as_argument ''g'' [TInt 7]) counting (start 0) =
        Inr \<lparr>out = [], user = 1\<rparr>"
proof -
  have h1: "primary [TInt 7] (IntE 7)" by (rule primary_int)
  have h2: "streamable_expr (IntE 7)" by simp
  have h3: "enabled (only DBG_enabled)" by (simp add: only_def enabled_def)
  have h4: "disabled (only DBG_disabled)" by (simp add: only_def disabled_def)
  have h5: "primary [TStr ''!''] (StrE ''!'')" by (rule primary_string)
  have h6: "streamable_expr (StrE ''!'')" by simp
  have h7: "primary [TIdent ''f'', TLParen, TRParen] (Call ''f'')" by (rule primary_call)
  have h8: "primary [TIdent ''g'', TLParen, TRParen] (Call ''g'')" by (rule primary_call)
  have h9: "primary [TIdent ''x''] (Var ''x'')" by (rule primary_var)
  have d7: "show_int 7 = ''7''" by (simp add: show_int_def digits.simps [of 7])
  note en = modes_not_interchangeable [OF h1 h2, of "only DBG_enabled" counting "start 0"]
  note dis = modes_not_interchangeable [OF h1 h2, of "only DBG_disabled" counting "start 0"]
  from dis [THEN conjunct2, THEN conjunct1, rule_format, OF h4]
  have a: "expand_text (only DBG_disabled) (emit [TInt 7]) = Inr [TSemi]" by simp
  from dis [THEN conjunct2, THEN conjunct2, THEN conjunct1, rule_format, OF h4,
      of "[TStr ''!'']" "[TIdent ''f'', TLParen, TRParen]" "[TIdent ''g'', TLParen, TRParen]"]
  have b: "build_and_run (only DBG_disabled) (as_left_operand [TInt 7] [TStr ''!'']) counting
      (start 0) = Inl SyntaxError"
    and c: "build_and_run (only DBG_disabled) (parenthesised [TInt 7]) counting (start 0) =
      Inl SyntaxError"
    and f: "build_and_run (only DBG_disabled)
        (as_condition [TInt 7] [TIdent ''f'', TLParen, TRParen] [TIdent ''g'', TLParen, TRParen])
        counting (start 0) = Inl SyntaxError"
    by simp_all
  from en [THEN conjunct2, THEN conjunct2, THEN conjunct2, THEN conjunct2, THEN conjunct1,
      rule_format, OF h3, of "[TStr ''!'']" "StrE ''!''"] h5 h6
  have d: "build_and_run (only DBG_enabled) (as_left_operand [TInt 7] [TStr ''!'']) counting
      (start 0) = Inr \<lparr>out = ''7!'', user = 0\<rparr>"
    by (simp add: start_def d7)
  from en [THEN conjunct2, THEN conjunct2, THEN conjunct2, THEN conjunct2, THEN conjunct2,
      THEN conjunct2, THEN conjunct1, rule_format, OF h3]
  have e: "build_and_run (only DBG_enabled) (parenthesised [TInt 7]) counting (start 0) =
      Inr \<lparr>out = ''7'', user = 0\<rparr>"
    by (simp add: start_def d7)
  from en [THEN conjunct2, THEN conjunct2, THEN conjunct2, THEN conjunct2, THEN conjunct2,
      THEN conjunct1, rule_format, OF h3,
      of "[TIdent ''f'', TLParen, TRParen]" "Call ''f''"
         "[TIdent ''g'', TLParen, TRParen]" "Call ''g''" TyInt] h7 h8
  have g: "build_and_run (only DBG_enabled)
        (as_condition [TInt 7] [TIdent ''f'', TLParen, TRParen] [TIdent ''g'', TLParen, TRParen])
        counting (start 0) = Inr \<lparr>out = ''7'', user = 1\<rparr>"
    by (simp add: start_def counting_def d7)
  from dis [THEN conjunct2, THEN conjunct2, THEN conjunct2, THEN conjunct1, rule_format, OF h4,
      of "[TIdent ''x'']" "Var ''x''" "[TStr ''!'']"] h9
  have h: "build_and_run (only DBG_disabled) (as_arms [TIdent ''x''] [TInt 7] [TStr ''!''])
        counting (start 0) = Inl SyntaxError"
    by simp
  from en [THEN conjunct2, THEN conjunct2, THEN conjunct2, THEN conjunct2, THEN conjunct2,
      THEN conjunct2, THEN conjunct2, THEN conjunct1, rule_format, OF h3,
      of "[TIdent ''x'']" "Var ''x''" TyInt "[TStr ''!'']" "StrE ''!''"] h9 h5 h6
  have i: "build_and_run (only DBG_enabled) (as_arms [TIdent ''x''] [TInt 7] [TStr ''!''])
        counting (start 0) = Inr \<lparr>out = ''!'', user = 0\<rparr>"
    by (simp add: start_def counting_def)
  from dis [THEN conjunct2, THEN conjunct2, THEN conjunct2, THEN conjunct2, THEN conjunct2,
      THEN conjunct2, THEN conjunct2, THEN conjunct2, rule_format, OF h4, of "''g''",
      THEN conjunct2]
  have j: "build_and_run (only DBG_disabled) (as_argument ''g'' [TInt 7]) counting (start 0) =
        Inr \<lparr>out = [], user = 1\<rparr>"
    by (simp add: counting_def start_def)
  from h1 h2 h3 h4 h5 h6 a b c d e f g h i j show ?thesis by simp
qed

end
